theory Spec2Isabelle
  imports Main
begin


chapter \<open>Smart door dashboard: the command relay and the event core\<close>

section \<open>telegram\_bot.py: the chat bot and its command listener\<close>

subsection \<open>Python string helpers used by the bot\<close>

text \<open>
  A chat text is a Python \<open>str\<close>: a sequence of Unicode code points, here a list of
  integers. \<open>ascii\<close> writes
  a literal of the source; \<open>str.strip\<close> removes at both ends the characters of
  \<open>str.isspace\<close>, which are the code points listed in \<open>is_space\<close>. \<open>str.lower\<close>
  follows the case tables of Unicode, which are not part of this repository: every
  function below that lowers a text takes \<open>str.lower\<close> as its first argument
  \<open>lower\<close>, and the theorems hold for every such function. \<open>lower_basic\<close>, used on
  the concrete inputs, folds the letters A to Z; \<open>str.lower\<close> agrees with it on every
  text whose only cased characters are ASCII letters.

  All other strings (tokens, chat ids, file names, paths) are only compared, joined
  or split at ASCII characters, and are kept as byte strings (UTF-8).
\<close>

type_synonym unicode = "int list"

definition ascii :: "string \<Rightarrow> unicode" where
  "ascii s = map of_char s"

definition is_space :: "int \<Rightarrow> bool" where
  "is_space c =
     ((0x09 \<le> c \<and> c \<le> 0x0D) \<or> (0x1C \<le> c \<and> c \<le> 0x20) \<or> c = 0x85 \<or> c = 0xA0 \<or>
      c = 0x1680 \<or> (0x2000 \<le> c \<and> c \<le> 0x200A) \<or> c = 0x2028 \<or> c = 0x2029 \<or>
      c = 0x202F \<or> c = 0x205F \<or> c = 0x3000)"

definition py_strip :: "unicode \<Rightarrow> unicode" where
  "py_strip s = rev (dropWhile is_space (rev (dropWhile is_space s)))"

definition startswith_slash :: "unicode \<Rightarrow> bool" where
  "startswith_slash s = (case s of [] \<Rightarrow> False | c # _ \<Rightarrow> c = 0x2F)"

definition lower_basic :: "unicode \<Rightarrow> unicode" where
  "lower_basic s = map (\<lambda>c. if 0x41 \<le> c \<and> c \<le> 0x5A then c + 0x20 else c) s"

definition digit_char :: "nat \<Rightarrow> char" where
  "digit_char d = char_of (48 + d)"

fun str_nat :: "nat \<Rightarrow> string" where
  "str_nat n = (if n < 10 then [digit_char n] else str_nat (n div 10) @ [digit_char (n mod 10)])"

declare str_nat.simps [simp del]

definition str_int :: "int \<Rightarrow> string" where
  "str_int i = (if i < 0 then CHR ''-'' # str_nat (nat (- i)) else str_nat (nat i))"

subsection \<open>Updates delivered by getUpdates\<close>

text \<open>
  An update is the JSON object of the chat API: \<open>update_id\<close>, and an optional
  \<open>message\<close> with an optional chat id (\<open>message.get("chat", {}).get("id")\<close>) and an
  optional text (\<open>message.get("text", "")\<close>).
\<close>

record message =
  chat_ident :: "int option"
  msg_text :: "unicode option"

record update =
  update_id :: int
  message :: "message option"

text \<open>\<open>str(message.get("chat", {}).get("id"))\<close>: \<open>str(None)\<close> is \<open>"None"\<close>.\<close>

definition sender_identity :: "message \<Rightarrow> string" where
  "sender_identity m = (case chat_ident m of None \<Rightarrow> ''None'' | Some i \<Rightarrow> str_int i)"

definition message_text :: "message \<Rightarrow> unicode" where
  "message_text m = (case msg_text m of None \<Rightarrow> [] | Some t \<Rightarrow> t)"

subsection \<open>The environment: the injected callback and the chat API\<close>

text \<open>
  What one invocation of the injected door-control callback does: it returns a truthy
  dictionary whose \<open>success\<close> is truthy, a non-empty dictionary without it (with or
  without a \<open>message\<close>), an empty dictionary, \<open>None\<close>, or it raises.
\<close>

datatype callback_outcome =
    ReturnsSuccess
  | ReturnsFailure "string option"
  | ReturnsEmptyDict
  | ReturnsNone
  | Raises string

text \<open>The texts the bot sends: the replies of \<open>handle_command\<close>, one constructor per
  \<open>return\<close> statement, and the two visitor notifications.\<close>

datatype chat_text =
    DoorOpening
  | CommandError string
  | TechnicalError string
  | ControlUnavailable
  | StatusText bool bool
  | HelpText
  | SettingsText bool string bool
  | UnknownCommand
  | VisitorKnown string
  | VisitorUnknown

text \<open>The outcome of one HTTP request of the bot: a status code, or an exception.\<close>

datatype http_outcome = Status nat | RequestFailed string

text \<open>The outcome of one long poll.\<close>

datatype poll =
    Response nat "update list"
  | Timeout
  | Failed

subsection \<open>The bot\<close>

text \<open>
  The fields of \<open>TelegramBot\<close>. \<open>command_thread\<close> is \<open>None\<close> or the number of the
  thread object it holds; \<open>door_controller\<close> maps the number of earlier invocations to the
  outcome of the next one. The remaining fields record what the bot did: every value
  assigned to the cursor, the offsets of its getUpdates requests, the cursor seen by
  each invocation of the callback, the cursor and the text of each sendMessage request,
  the path and the caption of each sendPhoto request, the seconds of each sleep, and
  the number of threads started.
\<close>

record telegram_bot =
  bot_token :: string
  chat_id :: string
  enabled :: bool
  command_offset :: int
  command_thread :: "nat option"
  running :: bool
  door_controller :: "(nat \<Rightarrow> callback_outcome) option"
  offset_log :: "int list"
  fetch_log :: "int list"
  door_log :: "int list"
  post_log :: "(int \<times> chat_text) list"
  photo_log :: "(string \<times> chat_text) list"
  sleep_log :: "nat list"
  threads_started :: nat

definition new_bot :: "string \<Rightarrow> string \<Rightarrow> bool \<Rightarrow> telegram_bot" where
  "new_bot tok cid en =
     \<lparr> bot_token = tok, chat_id = cid, enabled = en, command_offset = 0,
       command_thread = None, running = False, door_controller = None,
       offset_log = [], fetch_log = [], door_log = [], post_log = [],
       photo_log = [], sleep_log = [], threads_started = 0 \<rparr>"

definition set_door_controller :: "(nat \<Rightarrow> callback_outcome) \<Rightarrow> telegram_bot \<Rightarrow> telegram_bot" where
  "set_door_controller f b = b\<lparr> door_controller := Some f \<rparr>"

definition is_configured :: "telegram_bot \<Rightarrow> bool" where
  "is_configured b = (bot_token b \<noteq> [] \<and> chat_id b \<noteq> [])"

text \<open>
  \<open>send_message\<close>: nothing is requested when the bot is disabled or not configured;
  otherwise one sendMessage request is made and the result is whether it answered 200.
\<close>

definition send_message :: "(nat \<Rightarrow> http_outcome) \<Rightarrow> chat_text \<Rightarrow> telegram_bot \<Rightarrow> bool \<times> telegram_bot" where
  "send_message net msg b =
     (if \<not> enabled b \<or> \<not> is_configured b then (False, b)
      else (net (length (post_log b)) = Status 200,
            b\<lparr> post_log := post_log b @ [(command_offset b, msg)] \<rparr>))"

text \<open>
  \<open>send_photo\<close>; \<open>exists\<close> is the answer of \<open>os.path.exists(image_path)\<close>.
\<close>

definition send_photo ::
  "(nat \<Rightarrow> http_outcome) \<Rightarrow> bool \<Rightarrow> string \<Rightarrow> chat_text \<Rightarrow> telegram_bot \<Rightarrow> bool \<times> telegram_bot" where
  "send_photo net exists image_path caption b =
     (if \<not> enabled b \<or> \<not> is_configured b then (False, b)
      else if \<not> exists then (False, b)
      else (net (length (photo_log b)) = Status 200,
            b\<lparr> photo_log := photo_log b @ [(image_path, caption)] \<rparr>))"

text \<open>
  \<open>send_visitor_notification\<close>: the text names the person when access was granted and
  the name is truthy; the photo is sent when a path was given and the file exists.
\<close>

definition send_visitor_notification ::
  "(nat \<Rightarrow> http_outcome) \<Rightarrow> bool \<Rightarrow> bool \<Rightarrow> string option \<Rightarrow> string option \<Rightarrow> telegram_bot
     \<Rightarrow> bool \<times> telegram_bot" where
  "send_visitor_notification net exists granted recognized image_path b =
     (let msg = (case recognized of
                   Some person \<Rightarrow> if granted \<and> person \<noteq> [] then VisitorKnown person else VisitorUnknown
                 | None \<Rightarrow> VisitorUnknown)
      in case image_path of
           Some path \<Rightarrow> if path \<noteq> [] \<and> exists then send_photo net exists path msg b
                        else send_message net msg b
         | None \<Rightarrow> send_message net msg b)"

text \<open>
  \<open>handle_command\<close>: the reply, and the bot after the callback (if any) has run. The
  default error text and the text of the \<open>AttributeError\<close> that \<open>None.get\<close> raises are
  spelled in bytes (UTF-8).
\<close>

definition unknown_error_text :: string where
  "unknown_error_text = ''Eroare necunoscut'' @ [CHR 0xC4, CHR 0x83]"

definition none_get_error_text :: string where
  "none_get_error_text =
     [CHR 0x27] @ ''NoneType'' @ [CHR 0x27] @ '' object has no attribute '' @
     [CHR 0x27] @ ''get'' @ [CHR 0x27]"

definition open_reply :: "callback_outcome \<Rightarrow> chat_text" where
  "open_reply result =
     (case result of
        ReturnsSuccess \<Rightarrow> DoorOpening
      | ReturnsFailure None \<Rightarrow> CommandError unknown_error_text
      | ReturnsFailure (Some m) \<Rightarrow> CommandError m
      | ReturnsEmptyDict \<Rightarrow> CommandError unknown_error_text
      | ReturnsNone \<Rightarrow> TechnicalError none_get_error_text
      | Raises e \<Rightarrow> TechnicalError e)"

definition call_door_controller :: "(nat \<Rightarrow> callback_outcome) \<Rightarrow> telegram_bot \<Rightarrow> chat_text \<times> telegram_bot" where
  "call_door_controller f b =
     (let result = f (length (door_log b));
          b' = b\<lparr> door_log := door_log b @ [command_offset b] \<rparr>
      in (open_reply result, b'))"

definition handle_command ::
  "(unicode \<Rightarrow> unicode) \<Rightarrow> unicode \<Rightarrow> telegram_bot \<Rightarrow> chat_text \<times> telegram_bot" where
  "handle_command lower command b =
     (let c = py_strip (lower command) in
      if c = ascii ''/open'' then
        (case door_controller b of
           Some f \<Rightarrow> call_door_controller f b
         | None \<Rightarrow> (ControlUnavailable, b))
      else if c = ascii ''/status'' then (StatusText (enabled b) (is_configured b), b)
      else if c = ascii ''/help'' then (HelpText, b)
      else if c = ascii ''/settings'' then (SettingsText (enabled b) (chat_id b) (is_configured b), b)
      else (UnknownCommand, b))"

text \<open>
  The body of the \<open>for update in ...\<close> loop of the worker: the cursor is assigned first,
  then a message of the authorized chat whose text starts with a slash is dispatched
  and answered.
\<close>

definition process_message :: "(unicode \<Rightarrow> unicode) \<Rightarrow> (nat \<Rightarrow> http_outcome) \<Rightarrow> message \<Rightarrow> telegram_bot \<Rightarrow> telegram_bot" where
  "process_message lower net m b =
     (if sender_identity m = chat_id b then
        (if startswith_slash (message_text m) then
           (let (response_text, b1) = handle_command lower (message_text m) b
            in snd (send_message net response_text b1))
         else b)
      else b)"

definition process_update :: "(unicode \<Rightarrow> unicode) \<Rightarrow> (nat \<Rightarrow> http_outcome) \<Rightarrow> telegram_bot \<Rightarrow> update \<Rightarrow> telegram_bot" where
  "process_update lower net b u =
     (let b1 = b\<lparr> command_offset := update_id u + 1,
                  offset_log := offset_log b @ [update_id u + 1] \<rparr>
      in case message u of None \<Rightarrow> b1 | Some m \<Rightarrow> process_message lower net m b1)"

text \<open>One pass through the body of \<open>while self.running\<close>, given the outcome of the poll.\<close>

definition listener_iteration :: "(unicode \<Rightarrow> unicode) \<Rightarrow> (nat \<Rightarrow> http_outcome) \<Rightarrow> poll \<Rightarrow> telegram_bot \<Rightarrow> telegram_bot" where
  "listener_iteration lower net p b =
     (let b1 = b\<lparr> fetch_log := fetch_log b @ [command_offset b] \<rparr>
      in case p of
           Response code us \<Rightarrow>
             (if code = 200 then foldl (process_update lower net) b1 us
              else b1\<lparr> sleep_log := sleep_log b1 @ [5] \<rparr>)
         | Timeout \<Rightarrow> b1
         | Failed \<Rightarrow> b1\<lparr> sleep_log := sleep_log b1 @ [5] \<rparr>)"

text \<open>
  \<open>_command_listener_worker\<close> on a script of poll outcomes: the loop tests the running
  flag before each request and returns when it is cleared; when the script is used up
  the worker is waiting for its next answer.
\<close>

fun command_listener_worker :: "(unicode \<Rightarrow> unicode) \<Rightarrow> (nat \<Rightarrow> http_outcome) \<Rightarrow> poll list \<Rightarrow> telegram_bot \<Rightarrow> telegram_bot" where
  "command_listener_worker lower net [] b = b"
| "command_listener_worker lower net (p # ps) b =
     (if running b then command_listener_worker lower net ps (listener_iteration lower net p b) else b)"

text \<open>
  \<open>start_command_listener\<close>; \<open>alive\<close> is what \<open>command_thread.is_alive()\<close> answers when
  the bot holds a thread.
\<close>

definition start_command_listener :: "bool \<Rightarrow> telegram_bot \<Rightarrow> telegram_bot" where
  "start_command_listener alive b =
     (if command_thread b \<noteq> None \<and> alive then b
      else if \<not> is_configured b then b
      else b\<lparr> running := True,
              command_thread := Some (threads_started b),
              threads_started := threads_started b + 1 \<rparr>)"

definition stop_command_listener :: "telegram_bot \<Rightarrow> telegram_bot" where
  "stop_command_listener b = b\<lparr> running := False \<rparr>"

text \<open>
  \<open>update_config\<close>; \<open>alive\<close> is the answer of \<open>is_alive()\<close> after the pause of one
  second, that is, whether the worker has not yet come back to its loop test.
\<close>

definition update_config ::
  "string option \<Rightarrow> string option \<Rightarrow> bool option \<Rightarrow> bool \<Rightarrow> telegram_bot \<Rightarrow> telegram_bot" where
  "update_config new_token new_chat_id new_enabled alive b =
     (let (b1, r1) = (case new_token of
                        Some t \<Rightarrow> if t \<noteq> bot_token b then (b\<lparr> bot_token := t \<rparr>, True) else (b, False)
                      | None \<Rightarrow> (b, False));
          (b2, r2) = (case new_chat_id of
                        Some c \<Rightarrow> if c \<noteq> chat_id b1 then (b1\<lparr> chat_id := c \<rparr>, True) else (b1, r1)
                      | None \<Rightarrow> (b1, r1));
          b3 = (case new_enabled of Some e \<Rightarrow> b2\<lparr> enabled := e \<rparr> | None \<Rightarrow> b2)
      in if r2 \<and> running b3 then
           start_command_listener alive
             ((stop_command_listener b3)\<lparr> sleep_log := sleep_log b3 @ [1] \<rparr>)
         else b3)"

subsection \<open>Runs of the listener\<close>

text \<open>
  The bot without what it sends: the enabled flag cleared and the record of the
  sendMessage requests emptied. Two bots with the same view differ at most in the flag
  and in the messages sent.
\<close>

definition dispatch_view :: "telegram_bot \<Rightarrow> telegram_bot" where
  "dispatch_view b = b\<lparr> enabled := False, post_log := [] \<rparr>"

text \<open>A chat API that answers every sendMessage request with status 200.\<close>

definition always_ok :: "nat \<Rightarrow> http_outcome" where
  "always_ok n = Status 200"

text \<open>The values a poll makes the worker assign to the cursor, in order.\<close>

definition assigned_offsets :: "poll \<Rightarrow> int list" where
  "assigned_offsets p =
     (case p of
        Response code us \<Rightarrow> (if code = 200 then map (\<lambda>u. update_id u + 1) us else [])
      | Timeout \<Rightarrow> []
      | Failed \<Rightarrow> [])"

text \<open>
  The contract of getUpdates that the worker relies on: a batch requested with offset
  \<open>c\<close> lists only updates whose ids are at or above \<open>c\<close>, in ascending order; and a
  script of polls honours it when each successful batch does for the cursor that the
  batches before it leave behind.
\<close>

fun batch_respects_offset :: "int \<Rightarrow> update list \<Rightarrow> bool" where
  "batch_respects_offset c [] = True"
| "batch_respects_offset c (u # us) = (c \<le> update_id u \<and> batch_respects_offset (update_id u + 1) us)"

fun polls_respect_offset :: "int \<Rightarrow> poll list \<Rightarrow> bool" where
  "polls_respect_offset c [] = True"
| "polls_respect_offset c (p # ps) =
     (case p of
        Response code us \<Rightarrow>
          (if code = 200
           then batch_respects_offset c us \<and> polls_respect_offset (last (c # map (\<lambda>u. update_id u + 1) us)) ps
           else polls_respect_offset c ps)
      | Timeout \<Rightarrow> polls_respect_offset c ps
      | Failed \<Rightarrow> polls_respect_offset c ps)"


section \<open>app.py: the logs, the recognition pipeline and the broadcast hub\<close>

subsection \<open>JSON values\<close>

datatype json =
    JStr string
  | JBool bool
  | JNull
  | JArr "json list"
  | JObj "(string \<times> json) list"

subsection \<open>Access records and notifications\<close>

text \<open>
  The dictionaries built by \<open>create_access_record\<close> and \<open>create_notification\<close>. The
  key \<open>id\<close> is the field \<open>uid\<close> and the key \<open>method\<close> the field \<open>method_tag\<close>; a notification has the first eight keys, an access
  record has \<open>recognized_person\<close> too, and \<open>manual_grant_timestamp\<close> once a manual
  grant has added it.
\<close>

record notification =
  uid :: string
  timestamp :: string
  filename :: string
  image_url :: string
  access_granted :: bool
  status :: string
  method_tag :: string
  recognition_result :: string

record access_record = notification +
  recognized_person :: "string option"
  manual_grant_timestamp :: "string option"

text \<open>The result dictionary of \<open>FaceRecognitionService.recognize_face\<close>.\<close>

record recognition =
  granted :: bool
  person :: "string option"
  verdict :: string
  error :: "string option"

text \<open>The two labels of \<open>create_access_record\<close>, spelled in bytes (UTF-8).\<close>

definition label_recognized :: string where
  "label_recognized = ''Persoan'' @ [CHR 0xC4, CHR 0x83] @ '' recunoscut'' @ [CHR 0xC4, CHR 0x83]"

definition label_unrecognized :: string where
  "label_unrecognized = ''Persoan'' @ [CHR 0xC4, CHR 0x83] @ '' necunoscut'' @ [CHR 0xC4, CHR 0x83]"

subsection \<open>The recognizer\<close>

text \<open>
  What \<open>DeepFace.find\<close> does on an image: it returns a list of data frames, each given
  by the \<open>identity\<close> column of its rows, or it raises.
\<close>

datatype find_outcome = Found "string list list" | FindRaises string

definition basename :: "string \<Rightarrow> string" where
  "basename p = rev (takeWhile (\<lambda>c. c \<noteq> CHR ''/'') (rev p))"

text \<open>
  \<open>os.path.splitext(name)[0]\<close> for a name without separator: the name up to its last
  dot, unless only dots stand before that dot.
\<close>

definition splitext_root :: "string \<Rightarrow> string" where
  "splitext_root name =
     (let r = rev name;
          rest = dropWhile (\<lambda>c. c \<noteq> CHR ''.'') r
      in case rest of
           [] \<Rightarrow> name
         | _ # before \<Rightarrow> if list_all (\<lambda>c. c = CHR ''.'') before then name else rev before)"

definition recognize_face :: "find_outcome \<Rightarrow> recognition" where
  "recognize_face outcome =
     (case outcome of
        Found result \<Rightarrow>
          (case result of
             [] \<Rightarrow> \<lparr> granted = False, person = None, verdict = ''denied'', error = None \<rparr>
           | frame # _ \<Rightarrow>
               (case frame of
                  [] \<Rightarrow> \<lparr> granted = False, person = None, verdict = ''denied'', error = None \<rparr>
                | best_match_path # _ \<Rightarrow>
                    \<lparr> granted = True, person = Some (splitext_root (basename best_match_path)),
                      verdict = ''granted'', error = None \<rparr>))
      | FindRaises e \<Rightarrow> \<lparr> granted = False, person = None, verdict = ''error'', error = Some e \<rparr>)"

definition create_access_record :: "string \<Rightarrow> string \<Rightarrow> string \<Rightarrow> recognition \<Rightarrow> string \<Rightarrow> access_record" where
  "create_access_record new_uid now fname result meth =
     \<lparr> uid = new_uid,
       timestamp = now,
       filename = fname,
       image_url = ''/uploads/'' @ fname,
       access_granted = granted result,
       status = verdict result,
       method_tag = meth,
       recognition_result = (if granted result then label_recognized else label_unrecognized),
       recognized_person = person result,
       manual_grant_timestamp = None \<rparr>"

definition create_notification :: "string \<Rightarrow> access_record \<Rightarrow> notification" where
  "create_notification new_uid r =
     \<lparr> uid = new_uid,
       timestamp = timestamp r,
       filename = filename r,
       image_url = image_url r,
       access_granted = access_granted r,
       status = status r,
       method_tag = method_tag r,
       recognition_result = recognition_result r \<rparr>"

text \<open>What \<open>jsonify\<close> and \<open>json.dumps\<close> write for the two kinds of dictionary.\<close>

definition notification_json :: "notification \<Rightarrow> json" where
  "notification_json n =
     JObj [(''id'', JStr (uid n)), (''timestamp'', JStr (timestamp n)),
           (''filename'', JStr (filename n)), (''image_url'', JStr (image_url n)),
           (''access_granted'', JBool (access_granted n)), (''status'', JStr (status n)),
           (''recognition_result'', JStr (recognition_result n)), (''method'', JStr (method_tag n))]"

definition record_json :: "access_record \<Rightarrow> json" where
  "record_json r =
     JObj ([(''id'', JStr (uid r)), (''timestamp'', JStr (timestamp r)),
            (''filename'', JStr (filename r)), (''image_url'', JStr (image_url r)),
            (''access_granted'', JBool (access_granted r)), (''status'', JStr (status r)),
            (''method'', JStr (method_tag r)),
            (''recognized_person'', (case recognized_person r of None \<Rightarrow> JNull | Some p \<Rightarrow> JStr p)),
            (''recognition_result'', JStr (recognition_result r))]
           @ (case manual_grant_timestamp r of
                None \<Rightarrow> []
              | Some t \<Rightarrow> [(''manual_grant_timestamp'', JStr t)]))"

subsection \<open>The state of the application\<close>

text \<open>
  Dictionaries and client queues are objects: they live in a store and the lists hold
  their addresses, so that a mutation in place is seen through every reference.
  \<open>access_history\<close>, \<open>notifications\<close> and \<open>sse_clients\<close> are the three global lists;
  \<open>files\<close> is the upload folder, \<open>pending\<close> the tasks submitted to the thread pool and
  not yet run, \<open>door_requests\<close> the outcomes of the open requests made to the door, and
  \<open>bot\<close> the global bot.
\<close>

type_synonym addr = nat

record app_state =
  records :: "addr \<Rightarrow> access_record"
  notifs :: "addr \<Rightarrow> notification"
  queues :: "addr \<Rightarrow> json list"
  next_addr :: addr
  access_history :: "addr list"
  notifications :: "addr list"
  sse_clients :: "addr list"
  files :: "string \<rightharpoonup> string"
  pending :: "(string \<times> string) list"
  door_requests :: "http_outcome list"
  bot :: telegram_bot

definition empty_record :: access_record where
  "empty_record =
     \<lparr> uid = [], timestamp = [], filename = [], image_url = [], access_granted = False,
       status = [], method_tag = [], recognition_result = [],
       recognized_person = None, manual_grant_timestamp = None \<rparr>"

definition empty_notification :: notification where
  "empty_notification =
     \<lparr> uid = [], timestamp = [], filename = [], image_url = [], access_granted = False,
       status = [], method_tag = [], recognition_result = [] \<rparr>"

text \<open>The state after the module has been loaded: the three lists are empty.\<close>

definition initial_state :: "telegram_bot \<Rightarrow> app_state" where
  "initial_state b =
     \<lparr> records = (\<lambda>a. empty_record), notifs = (\<lambda>a. empty_notification), queues = (\<lambda>a. []),
       next_addr = 0, access_history = [], notifications = [], sse_clients = [],
       files = Map.empty, pending = [], door_requests = [], bot = b \<rparr>"

subsection \<open>The two bounded logs\<close>

text \<open>\<open>xs.insert(0, x)\<close> followed by \<open>xs.pop()\<close> when the list has grown past the bound.\<close>

definition insert_bounded :: "nat \<Rightarrow> 'a \<Rightarrow> 'a list \<Rightarrow> 'a list" where
  "insert_bounded bound x xs =
     (let ys = x # xs in if length ys > bound then butlast ys else ys)"

definition add_access_record :: "addr \<Rightarrow> app_state \<Rightarrow> app_state" where
  "add_access_record r s = s\<lparr> access_history := insert_bounded 50 r (access_history s) \<rparr>"

definition add_notification :: "addr \<Rightarrow> app_state \<Rightarrow> app_state" where
  "add_notification n s = s\<lparr> notifications := insert_bounded 20 n (notifications s) \<rparr>"

text \<open>An insertion into one of the two logs, and a sequence of them.\<close>

datatype insertion = IntoAccess addr | IntoNotifications addr

fun insert_entry :: "app_state \<Rightarrow> insertion \<Rightarrow> app_state" where
  "insert_entry s (IntoAccess r) = add_access_record r s"
| "insert_entry s (IntoNotifications n) = add_notification n s"

fun access_refs :: "insertion list \<Rightarrow> addr list" where
  "access_refs [] = []"
| "access_refs (IntoAccess r # is) = r # access_refs is"
| "access_refs (IntoNotifications n # is) = access_refs is"

fun notification_refs :: "insertion list \<Rightarrow> addr list" where
  "notification_refs [] = []"
| "notification_refs (IntoAccess r # is) = notification_refs is"
| "notification_refs (IntoNotifications n # is) = n # notification_refs is"

subsection \<open>The broadcast hub\<close>

text \<open>\<open>notify_clients\<close>: the message is appended to every queue of the registry.\<close>

definition notify_clients :: "json \<Rightarrow> app_state \<Rightarrow> app_state" where
  "notify_clients msg s =
     s\<lparr> queues := foldl (\<lambda>q a. q(a := q a @ [msg])) (queues s) (sse_clients s) \<rparr>"

text \<open>
  The generator \<open>event_stream\<close> of a connection. Connecting creates a new empty list,
  appends it to the registry and emits \<open>connected\<close>; a tick pops the oldest message of
  the queue or emits \<open>ping\<close>; on \<open>GeneratorExit\<close> the queue is taken out of the
  registry with \<open>in\<close> and \<open>list.remove\<close>, which find the first element that is the
  queue or is equal to it (\<open>==\<close> compares two lists by their contents).
\<close>

definition sse_connect :: "app_state \<Rightarrow> addr \<times> json \<times> app_state" where
  "sse_connect s =
     (let client_queue = next_addr s
      in (client_queue, JObj [(''type'', JStr ''connected'')],
          s\<lparr> queues := (queues s)(client_queue := []),
             next_addr := next_addr s + 1,
             sse_clients := sse_clients s @ [client_queue] \<rparr>))"

definition sse_tick :: "addr \<Rightarrow> app_state \<Rightarrow> json \<times> app_state" where
  "sse_tick client_queue s =
     (case queues s client_queue of
        [] \<Rightarrow> (JObj [(''type'', JStr ''ping'')], s)
      | msg # rest \<Rightarrow> (msg, s\<lparr> queues := (queues s)(client_queue := rest) \<rparr>))"

fun remove_first :: "('a \<Rightarrow> bool) \<Rightarrow> 'a list \<Rightarrow> 'a list" where
  "remove_first same [] = []"
| "remove_first same (x # xs) = (if same x then xs else x # remove_first same xs)"

definition py_same :: "(addr \<Rightarrow> json list) \<Rightarrow> addr \<Rightarrow> addr \<Rightarrow> bool" where
  "py_same store q x = (x = q \<or> store x = store q)"

definition sse_disconnect :: "addr \<Rightarrow> app_state \<Rightarrow> app_state" where
  "sse_disconnect client_queue s =
     (if list_ex (py_same (queues s) client_queue) (sse_clients s)
      then s\<lparr> sse_clients := remove_first (py_same (queues s) client_queue) (sse_clients s) \<rparr>
      else s)"

subsection \<open>The request handlers of the logs\<close>

text \<open>
  Every handler returns the JSON body and the status code of its response. \<open>logged_in\<close>
  is whether the session carries the key \<open>logged_in\<close>.
\<close>

definition unauthenticated :: "json \<times> nat" where
  "unauthenticated = (JObj [(''error'', JStr ''Neautentificat'')], 401)"

text \<open>
  \<open>get_notifications\<close> and \<open>get_access_history\<close>: the list is copied and the copy is
  serialized, both while the lock of the list is held.
\<close>

definition get_notifications :: "bool \<Rightarrow> app_state \<Rightarrow> json \<times> nat" where
  "get_notifications logged_in s =
     (if \<not> logged_in then unauthenticated
      else (let copy = notifications s
            in (JArr (map (\<lambda>a. notification_json (notifs s a)) copy), 200)))"

definition get_access_history :: "bool \<Rightarrow> app_state \<Rightarrow> json \<times> nat" where
  "get_access_history logged_in s =
     (if \<not> logged_in then unauthenticated
      else (let copy = access_history s
            in (JArr (map (\<lambda>a. record_json (records s a)) copy), 200)))"

definition clear_notifications :: "bool \<Rightarrow> app_state \<Rightarrow> (json \<times> nat) \<times> app_state" where
  "clear_notifications logged_in s =
     (if \<not> logged_in then (unauthenticated, s)
      else ((JObj [(''success'', JBool True)], 200), s\<lparr> notifications := [] \<rparr>))"

text \<open>The assignments \<open>grant_access\<close> makes to the dictionary it has found.\<close>

definition grant_record :: "string \<Rightarrow> access_record \<Rightarrow> access_record" where
  "grant_record now r =
     r\<lparr> access_granted := True,
        status := ''granted'',
        method_tag := method_tag r @ ''_manual_override'',
        recognition_result := ''Acces permis manual'',
        manual_grant_timestamp := Some now \<rparr>"

definition grant_notification :: "notification \<Rightarrow> notification" where
  "grant_notification n =
     n\<lparr> access_granted := True,
        status := ''granted'',
        recognition_result := ''Acces permis manual'' \<rparr>"

definition grant_message :: "string \<Rightarrow> string" where
  "grant_message fname =
     ''Acces permis pentru '' @ fname @ '' - se deschide u'' @ [CHR 0xC8, CHR 0x99] @ ''a...''"

text \<open>
  \<open>grant_access\<close>: the first record of the access history with the file name is
  changed in place, then the first notification with it; when a record was changed it
  is looked up again and published; the response reports the two flags.
\<close>

definition grant_access :: "bool \<Rightarrow> string \<Rightarrow> string \<Rightarrow> app_state \<Rightarrow> (json \<times> nat) \<times> app_state" where
  "grant_access logged_in fname now s =
     (if \<not> logged_in then (unauthenticated, s)
      else
        (let found_record = find (\<lambda>a. filename (records s a) = fname) (access_history s);
             s1 = (case found_record of
                     Some a \<Rightarrow> s\<lparr> records := (records s)(a := grant_record now (records s a)) \<rparr>
                   | None \<Rightarrow> s);
             record_updated = (found_record \<noteq> None);
             found_notification = find (\<lambda>a. filename (notifs s1 a) = fname) (notifications s1);
             s2 = (case found_notification of
                     Some a \<Rightarrow> s1\<lparr> notifs := (notifs s1)(a := grant_notification (notifs s1 a)) \<rparr>
                   | None \<Rightarrow> s1);
             notification_updated = (found_notification \<noteq> None);
             s3 = (if record_updated then
                     (case find (\<lambda>a. filename (records s2 a) = fname) (access_history s2) of
                        Some a \<Rightarrow>
                          notify_clients
                            (JObj [(''type'', JStr ''access_granted_manual''),
                                   (''data'', record_json (records s2 a))]) s2
                      | None \<Rightarrow> s2)
                   else s2)
         in ((JObj [(''success'', JBool True),
                    (''message'', JStr (grant_message fname)),
                    (''record_updated'', JBool record_updated),
                    (''notification_updated'', JBool notification_updated)], 200),
             s3)))"

text \<open>
  Runs of the operations on the two logs by an authenticated client: insertions, the
  manual grant, clearing, and the two snapshot reads. A run yields the bodies returned
  to the callers, in order, and the final state.
\<close>

datatype log_action =
    Insert insertion
  | Grant string string
  | Clear
  | ReadNotifications
  | ReadAccessHistory

fun perform :: "log_action \<Rightarrow> app_state \<Rightarrow> json option \<times> app_state" where
  "perform (Insert i) s = (None, insert_entry s i)"
| "perform (Grant fname now) s = (let (r, s') = grant_access True fname now s in (Some (fst r), s'))"
| "perform Clear s = (let (r, s') = clear_notifications True s in (Some (fst r), s'))"
| "perform ReadNotifications s = (Some (fst (get_notifications True s)), s)"
| "perform ReadAccessHistory s = (Some (fst (get_access_history True s)), s)"

fun run_actions :: "log_action list \<Rightarrow> app_state \<Rightarrow> json option list \<times> app_state" where
  "run_actions [] s = ([], s)"
| "run_actions (a # as) s =
     (let (r, s1) = perform a s;
          (rs, s2) = run_actions as s1
      in (r # rs, s2))"

subsection \<open>The recognition pipeline\<close>

text \<open>
  What one run of the pipeline reads from outside: the outcome of the recognizer, the
  two fresh identifiers, the time, the answers of the chat API and the answer of the
  door.
\<close>

record task_inputs =
  find_result :: find_outcome
  record_uid :: string
  notification_uid :: string
  now_iso :: string
  telegram_net :: "nat \<Rightarrow> http_outcome"
  door_response :: http_outcome

text \<open>\<open>ESP32Controller.open_door\<close>: the success flag and the message.\<close>

definition open_door :: "http_outcome \<Rightarrow> app_state \<Rightarrow> (bool \<times> string) \<times> app_state" where
  "open_door outcome s =
     (let s' = s\<lparr> door_requests := door_requests s @ [outcome] \<rparr>
      in case outcome of
           Status code \<Rightarrow>
             (if code = 200 then ((True, ''Door opened successfully''), s')
              else ((False, ''ESP32 error: '' @ str_nat code), s'))
         | RequestFailed e \<Rightarrow> ((False, ''Connection error: '' @ e), s'))"

definition event_type_of :: "string \<Rightarrow> bool \<Rightarrow> string" where
  "event_type_of meth is_granted =
     (if meth = ''automatic'' then ''new_visitor''
      else if meth = ''stream_detection'' then
        (if is_granted then ''stream_face_recognized'' else ''stream_face_denied'')
      else ''face_recognition_complete'')"

text \<open>The body of \<open>process_face_recognition_async\<close>; it returns the record.\<close>

definition process_face_recognition :: "task_inputs \<Rightarrow> string \<Rightarrow> string \<Rightarrow> app_state \<Rightarrow> addr \<times> app_state" where
  "process_face_recognition inp image_path meth s =
     (let result = recognize_face (find_result inp);
          fname = basename image_path;
          rec_ref = next_addr s;
          s1 = s\<lparr> records := (records s)(rec_ref :=
                      create_access_record (record_uid inp) (now_iso inp) fname result meth),
                  next_addr := next_addr s + 1 \<rparr>;
          s2 = add_access_record rec_ref s1;
          notif_ref = next_addr s2;
          s3 = s2\<lparr> notifs := (notifs s2)(notif_ref :=
                       create_notification (notification_uid inp) (records s2 rec_ref)),
                   next_addr := next_addr s2 + 1 \<rparr>;
          s4 = add_notification notif_ref s3;
          (telegram_sent, b') =
             send_visitor_notification (telegram_net inp) (files s4 image_path \<noteq> None)
               (granted result) (person result) (Some image_path) (bot s4);
          s5 = s4\<lparr> bot := b' \<rparr>;
          s6 = (if granted result then snd (open_door (door_response inp) s5) else s5);
          event_type = event_type_of meth (granted result);
          s7 = notify_clients
                 (JObj [(''type'', JStr event_type),
                        (''data'', notification_json (notifs s6 notif_ref))]) s6
      in (rec_ref, s7))"

text \<open>
  The wrapper of \<open>async_task\<close>: the result of the future is the value the task
  returned, or \<open>None\<close> had it raised; no branch of the body above raises.
\<close>

definition run_task :: "task_inputs \<Rightarrow> string \<times> string \<Rightarrow> app_state \<Rightarrow> addr option \<times> app_state" where
  "run_task inp task s =
     (let (r, s') = process_face_recognition inp (fst task) (snd task) s in (Some r, s'))"

text \<open>
  \<open>executor.submit\<close>: \<open>early\<close> is \<open>None\<close> when the task is still queued as the caller goes
  on, or the inputs with which a worker of the pool has already run it by then.
\<close>

definition submit :: "task_inputs option \<Rightarrow> string \<times> string \<Rightarrow> app_state \<Rightarrow> app_state" where
  "submit early task s =
     (case early of
        None \<Rightarrow> s\<lparr> pending := pending s @ [task] \<rparr>
      | Some inp \<Rightarrow> snd (run_task inp task s))"

text \<open>A worker of the pool takes the oldest queued task.\<close>

definition run_pending :: "task_inputs \<Rightarrow> app_state \<Rightarrow> addr option \<times> app_state" where
  "run_pending inp s =
     (case pending s of
        [] \<Rightarrow> (None, s)
      | task # rest \<Rightarrow> run_task inp task (s\<lparr> pending := rest \<rparr>))"

text \<open>\<open>upload\<close>; \<open>stamp\<close> is the result of \<open>generate_timestamp\<close>, \<open>body\<close> the posted bytes.\<close>

definition upload :: "string \<Rightarrow> string \<Rightarrow> task_inputs option \<Rightarrow> app_state \<Rightarrow> (json \<times> nat) \<times> app_state" where
  "upload stamp body early s =
     (let fname = ''visitor_'' @ stamp @ ''.jpg'';
          file_path = ''uploads/'' @ fname;
          s1 = s\<lparr> files := (files s)(file_path \<mapsto> body) \<rparr>;
          s2 = submit early (file_path, ''automatic'') s1
      in ((JObj [(''status'', JStr ''processing''),
                 (''message'', JStr ''Image uploaded, processing face recognition...''),
                 (''filename'', JStr fname),
                 (''access_granted'', JBool False)], 200),
          s2))"


subsection \<open>Critical sections\<close>

text \<open>
  The three locks of the module, and the pieces of code that other threads run while a
  request is being served: every \<open>with\<close> block of app.py that writes the state, and
  every write made outside of a lock; \<open>BotStep\<close> is any step of the listener thread
  on the bot. \<open>lock_of\<close> is the lock the block is written under in the source.
\<close>

datatype lock = AccessHistoryLock | NotificationsLock | SseClientsLock

text \<open>
  The first and the second \<open>with\<close> block of \<open>grant_access\<close>: each returns its flag.
\<close>

definition grant_record_block :: "string \<Rightarrow> string \<Rightarrow> app_state \<Rightarrow> bool \<times> app_state" where
  "grant_record_block fname now s =
     (case find (\<lambda>a. filename (records s a) = fname) (access_history s) of
        Some a \<Rightarrow> (True, s\<lparr> records := (records s)(a := grant_record now (records s a)) \<rparr>)
      | None \<Rightarrow> (False, s))"

definition grant_notification_block :: "string \<Rightarrow> app_state \<Rightarrow> bool \<times> app_state" where
  "grant_notification_block fname s =
     (case find (\<lambda>a. filename (notifs s a) = fname) (notifications s) of
        Some a \<Rightarrow> (True, s\<lparr> notifs := (notifs s)(a := grant_notification (notifs s a)) \<rparr>)
      | None \<Rightarrow> (False, s))"

text \<open>
  A dictionary built by \<open>create_access_record\<close> or \<open>create_notification\<close> becomes a
  new object of the store; no lock is held.
\<close>

definition store_record :: "access_record \<Rightarrow> app_state \<Rightarrow> app_state" where
  "store_record r s = s\<lparr> records := (records s)(next_addr s := r), next_addr := next_addr s + 1 \<rparr>"

definition store_notification :: "notification \<Rightarrow> app_state \<Rightarrow> app_state" where
  "store_notification n s = s\<lparr> notifs := (notifs s)(next_addr s := n), next_addr := next_addr s + 1 \<rparr>"

datatype block =
    StoreRecord access_record
  | StoreNotification notification
  | AddAccessRecord addr
  | AddNotification addr
  | ClearNotifications
  | GrantRecord string string
  | GrantNotification string
  | NotifyClients json
  | SseConnect
  | SseTick addr
  | SseDisconnect addr
  | TelegramNotify "nat \<Rightarrow> http_outcome" bool bool "string option" "string option"
  | OpenDoor http_outcome
  | WriteFile string string
  | SubmitTask "string \<times> string"
  | BotStep "telegram_bot \<Rightarrow> telegram_bot"

fun lock_of :: "block \<Rightarrow> lock option" where
  "lock_of (StoreRecord r) = None"
| "lock_of (StoreNotification n) = None"
| "lock_of (AddAccessRecord a) = Some AccessHistoryLock"
| "lock_of (AddNotification a) = Some NotificationsLock"
| "lock_of ClearNotifications = Some NotificationsLock"
| "lock_of (GrantRecord fname now) = Some AccessHistoryLock"
| "lock_of (GrantNotification fname) = Some NotificationsLock"
| "lock_of (NotifyClients msg) = Some SseClientsLock"
| "lock_of SseConnect = Some SseClientsLock"
| "lock_of (SseTick q) = None"
| "lock_of (SseDisconnect q) = Some SseClientsLock"
| "lock_of (TelegramNotify net exists is_granted recognized image_path) = None"
| "lock_of (OpenDoor outcome) = None"
| "lock_of (WriteFile path body) = None"
| "lock_of (SubmitTask task) = None"
| "lock_of (BotStep f) = None"

fun run_block :: "app_state \<Rightarrow> block \<Rightarrow> app_state" where
  "run_block s (StoreRecord r) = store_record r s"
| "run_block s (StoreNotification n) = store_notification n s"
| "run_block s (AddAccessRecord a) = add_access_record a s"
| "run_block s (AddNotification a) = add_notification a s"
| "run_block s ClearNotifications = snd (clear_notifications True s)"
| "run_block s (GrantRecord fname now) = snd (grant_record_block fname now s)"
| "run_block s (GrantNotification fname) = snd (grant_notification_block fname s)"
| "run_block s (NotifyClients msg) = notify_clients msg s"
| "run_block s SseConnect = snd (snd (sse_connect s))"
| "run_block s (SseTick q) = snd (sse_tick q s)"
| "run_block s (SseDisconnect q) = sse_disconnect q s"
| "run_block s (TelegramNotify net exists is_granted recognized image_path) =
     s\<lparr> bot := snd (send_visitor_notification net exists is_granted recognized image_path (bot s)) \<rparr>"
| "run_block s (OpenDoor outcome) = snd (open_door outcome s)"
| "run_block s (WriteFile path body) = s\<lparr> files := (files s)(path \<mapsto> body) \<rparr>"
| "run_block s (SubmitTask task) = s\<lparr> pending := pending s @ [task] \<rparr>"
| "run_block s (BotStep f) = s\<lparr> bot := f (bot s) \<rparr>"

text \<open>The blocks of one run of the pipeline, in the order of the source.\<close>

definition pipeline_blocks :: "task_inputs \<Rightarrow> string \<Rightarrow> string \<Rightarrow> app_state \<Rightarrow> block list" where
  "pipeline_blocks inp image_path meth s =
     (let result = recognize_face (find_result inp);
          r = create_access_record (record_uid inp) (now_iso inp) (basename image_path) result meth;
          n = create_notification (notification_uid inp) r
      in [StoreRecord r, AddAccessRecord (next_addr s),
          StoreNotification n, AddNotification (next_addr s + 1),
          TelegramNotify (telegram_net inp) (files s image_path \<noteq> None) (granted result)
            (person result) (Some image_path)]
         @ (if granted result then [OpenDoor (door_response inp)] else [])
         @ [NotifyClients (JObj [(''type'', JStr (event_type_of meth (granted result))),
                                 (''data'', notification_json n)])])"

text \<open>
  A block that needs a lock waits while another thread holds it: the blocks that run
  while a thread holds the lock \<open>l\<close> are free of \<open>l\<close>.
\<close>

definition free_of :: "lock \<Rightarrow> block list \<Rightarrow> bool" where
  "free_of l bs = list_all (\<lambda>b. lock_of b \<noteq> Some l) bs"

text \<open>
  The two snapshot reads of an authenticated client among other threads. The reader
  takes the lock of the list and copies the list; the other threads run \<open>others\<close>;
  the reader serializes its copy from the store as it then is, and releases the lock.
\<close>

definition get_access_history_among :: "block list \<Rightarrow> app_state \<Rightarrow> (json \<times> nat) \<times> app_state" where
  "get_access_history_among others s =
     (let copy = access_history s;
          s' = foldl run_block s others
      in ((JArr (map (\<lambda>a. record_json (records s' a)) copy), 200), s'))"

definition get_notifications_among :: "block list \<Rightarrow> app_state \<Rightarrow> (json \<times> nat) \<times> app_state" where
  "get_notifications_among others s =
     (let copy = notifications s;
          s' = foldl run_block s others
      in ((JArr (map (\<lambda>a. notification_json (notifs s' a)) copy), 200), s'))"

text \<open>Every reference held by the two logs is to an object that has been created.\<close>

definition allocated :: "app_state \<Rightarrow> bool" where
  "allocated s =
     (list_all (\<lambda>a. a < next_addr s) (access_history s) \<and>
      list_all (\<lambda>a. a < next_addr s) (notifications s))"


section \<open>Concrete inputs\<close>

text \<open>A configured, running bot with a callback that succeeds, and a few updates.\<close>

definition door_succeeds :: "nat \<Rightarrow> callback_outcome" where
  "door_succeeds n = ReturnsSuccess"

definition bot0 :: telegram_bot where
  "bot0 = (new_bot ''123:abc'' ''1001'' True)
            \<lparr> command_thread := Some 0, running := True, door_controller := Some door_succeeds,
              threads_started := 1 \<rparr>"

definition plain_update :: "int \<Rightarrow> update" where
  "plain_update i = \<lparr> update_id = i, message = None \<rparr>"

definition text_update :: "int \<Rightarrow> int \<Rightarrow> unicode \<Rightarrow> update" where
  "text_update i sender t =
     \<lparr> update_id = i, message = Some \<lparr> chat_ident = Some sender, msg_text = Some t \<rparr> \<rparr>"

text \<open>The text \<open>/Open\<close> followed by a no-break space (U+00A0).\<close>

definition open_with_nbsp :: unicode where
  "open_with_nbsp = ascii ''/Open'' @ [0xA0]"

text \<open>
  A run of the pipeline on an unknown visitor, and the state it leaves behind on the
  freshly loaded application.
\<close>

definition sample_inputs :: task_inputs where
  "sample_inputs =
     \<lparr> find_result = Found [[]], record_uid = ''r-1'', notification_uid = ''n-1'',
       now_iso = ''2025-01-01T10:00:00'', telegram_net = always_ok,
       door_response = Status 200 \<rparr>"

definition logged_state :: app_state where
  "logged_state =
     snd (process_face_recognition sample_inputs ''uploads/visitor_1.jpg'' ''automatic''
            (initial_state bot0))"

text \<open>Two dashboards connected to the freshly loaded application, and an event.\<close>

definition two_clients :: app_state where
  "two_clients = snd (snd (sse_connect (snd (snd (sse_connect (initial_state bot0))))))"

definition door_event :: json where
  "door_event = JObj [(''type'', JStr ''telegram_open_door'')]"

text \<open>A second run of the pipeline on the same file, by a manual capture.\<close>

definition twice_logged_state :: app_state where
  "twice_logged_state =
     snd (process_face_recognition
            (sample_inputs\<lparr> record_uid := ''r-2'', notification_uid := ''n-2'',
                             now_iso := ''2025-01-01T10:01:00'' \<rparr>)
            ''uploads/visitor_1.jpg'' ''manual'' logged_state)"


section \<open>The cursor of the command listener\<close>

subsection \<open>What each step leaves unchanged\<close>

lemma send_message_frame:
  "command_offset (snd (send_message net r b)) = command_offset b"
  "offset_log (snd (send_message net r b)) = offset_log b"
  "door_log (snd (send_message net r b)) = door_log b"
  "running (snd (send_message net r b)) = running b"
  "fetch_log (snd (send_message net r b)) = fetch_log b"
  by (simp_all add: send_message_def)

lemma send_message_posts:
  "post_log (snd (send_message net r b)) =
     post_log b @ (if enabled b \<and> is_configured b then [(command_offset b, r)] else [])"
  by (simp add: send_message_def)

lemma handle_command_frame:
  "command_offset (snd (handle_command lower c b)) = command_offset b"
  "offset_log (snd (handle_command lower c b)) = offset_log b"
  "post_log (snd (handle_command lower c b)) = post_log b"
  "running (snd (handle_command lower c b)) = running b"
  "fetch_log (snd (handle_command lower c b)) = fetch_log b"
  "enabled (snd (handle_command lower c b)) = enabled b"
  "is_configured (snd (handle_command lower c b)) = is_configured b"
  by (simp_all add: handle_command_def call_door_controller_def Let_def is_configured_def split: option.splits)

lemma handle_command_door:
  "door_log (snd (handle_command lower c b)) =
     door_log b @ (if py_strip (lower c) = ascii ''/open'' \<and> door_controller b \<noteq> None
                   then [command_offset b] else [])"
  by (simp add: handle_command_def call_door_controller_def Let_def split: option.splits)

lemma process_message_frame:
  "command_offset (process_message lower net m b) = command_offset b"
  "offset_log (process_message lower net m b) = offset_log b"
  "running (process_message lower net m b) = running b"
  "fetch_log (process_message lower net m b) = fetch_log b"
  by (simp_all add: process_message_def send_message_frame handle_command_frame split_beta)

lemma process_message_door:
  "door_log (process_message lower net m b) =
     door_log b @ (if sender_identity m = chat_id b \<and> startswith_slash (message_text m) \<and>
                      py_strip (lower (message_text m)) = ascii ''/open'' \<and> door_controller b \<noteq> None
                   then [command_offset b] else [])"
  by (simp add: process_message_def send_message_frame handle_command_door split_beta)

lemma process_message_posts:
  "post_log (process_message lower net m b) =
     post_log b @ (if sender_identity m = chat_id b \<and> startswith_slash (message_text m) \<and>
                      enabled b \<and> is_configured b
                   then [(command_offset b, fst (handle_command lower (message_text m) b))] else [])"
  by (simp add: process_message_def send_message_posts handle_command_frame split_beta)

lemma process_update_offset:
  "command_offset (process_update lower net b u) = update_id u + 1"
  "offset_log (process_update lower net b u) = offset_log b @ [update_id u + 1]"
  "running (process_update lower net b u) = running b"
  "fetch_log (process_update lower net b u) = fetch_log b"
  by (simp_all add: process_update_def Let_def process_message_frame split: option.splits)

lemma process_update_door_cursor:
  "list_all (\<lambda>c. c = update_id u + 1)
     (drop (length (door_log b)) (door_log (process_update lower net b u)))"
  by (simp add: process_update_def Let_def process_message_door split: option.splits)

lemma process_update_post_cursor:
  "list_all (\<lambda>p. fst p = update_id u + 1)
     (drop (length (post_log b)) (post_log (process_update lower net b u)))"
  by (simp add: process_update_def Let_def process_message_posts split: option.splits)

lemma batch_offset:
  "command_offset (foldl (process_update lower net) b us) = last (command_offset b # map (\<lambda>u. update_id u + 1) us)"
  by (induction us arbitrary: b) (simp_all add: process_update_offset)

lemma batch_offset_log:
  "offset_log (foldl (process_update lower net) b us) = offset_log b @ map (\<lambda>u. update_id u + 1) us"
  by (induction us arbitrary: b) (simp_all add: process_update_offset)

lemma batch_running:
  "running (foldl (process_update lower net) b us) = running b"
  by (induction us arbitrary: b) (simp_all add: process_update_offset)

lemma iteration_offset_log:
  "offset_log (listener_iteration lower net p b) = offset_log b @ assigned_offsets p"
  by (simp add: listener_iteration_def assigned_offsets_def Let_def batch_offset_log split: poll.splits)

lemma iteration_offset:
  "command_offset (listener_iteration lower net p b) = last (command_offset b # assigned_offsets p)"
  by (simp add: listener_iteration_def assigned_offsets_def Let_def batch_offset split: poll.splits)

lemma iteration_running:
  "running (listener_iteration lower net p b) = running b"
  by (simp add: listener_iteration_def Let_def batch_running split: poll.splits)

lemma worker_offset_log:
  "running b \<Longrightarrow> offset_log (command_listener_worker lower net ps b) = offset_log b @ concat (map assigned_offsets ps)"
  by (induction ps arbitrary: b) (simp_all add: iteration_offset_log iteration_running)

lemma worker_offset:
  "running b \<Longrightarrow> command_offset (command_listener_worker lower net ps b) = last (command_offset b # concat (map assigned_offsets ps))"
  by (induction ps arbitrary: b) (simp_all add: iteration_offset iteration_running)

lemma worker_stopped: "\<not> running b \<Longrightarrow> command_listener_worker lower net ps b = b"
  by (cases ps) simp_all

lemma assigned_offsets_simps:
  "assigned_offsets (Response code us) = (if code = 200 then map (\<lambda>u. update_id u + 1) us else [])"
  "assigned_offsets Timeout = []"
  "assigned_offsets Failed = []"
  by (simp_all add: assigned_offsets_def)

lemma sorted_le_last:
  fixes x :: int
  shows "sorted xs \<Longrightarrow> x \<in> set xs \<Longrightarrow> x \<le> last xs"
  by (induction xs) auto

lemma sorted_chain:
  fixes c :: int
  assumes "sorted (c # xs)" and "sorted (last (c # xs) # ys)"
  shows "sorted (c # xs @ ys)"
proof -
  have le: "x \<le> y" if "x \<in> set (c # xs)" and "y \<in> set ys" for x y
  proof -
    have "x \<le> last (c # xs)" using assms(1) that(1) by (rule sorted_le_last)
    moreover have "last (c # xs) \<le> y" using assms(2) that(2) by (simp del: last.simps)
    ultimately show ?thesis by simp
  qed
  have "sorted ys" using assms(2) by (simp del: last.simps)
  with assms(1) le have "sorted ((c # xs) @ ys)"
    unfolding sorted_append by blast
  then show ?thesis by simp
qed

lemma batch_sorted:
  "batch_respects_offset c us \<Longrightarrow> sorted (c # map (\<lambda>u. update_id u + 1) us)"
proof (induction us arbitrary: c)
  case Nil
  then show ?case by simp
next
  case (Cons u us)
  from Cons.prems have "batch_respects_offset (update_id u + 1) us" by simp
  then have "sorted ((update_id u + 1) # map (\<lambda>u. update_id u + 1) us)" by (rule Cons.IH)
  moreover have "c \<le> update_id u + 1" using Cons.prems by simp
  ultimately have "sorted (c # (update_id u + 1) # map (\<lambda>u. update_id u + 1) us)"
    by (simp only: sorted2) 
  then show ?case by simp
qed

lemma polls_sorted:
  "polls_respect_offset c ps \<Longrightarrow> sorted (c # concat (map assigned_offsets ps))"
proof (induction ps arbitrary: c)
  case Nil
  then show ?case by simp
next
  case (Cons p ps)
  show ?case
  proof (cases "\<exists>us. p = Response 200 us")
    case True
    then obtain us where p: "p = Response 200 us" by blast
    have eq: "concat (map assigned_offsets (p # ps)) =
                map (\<lambda>u. update_id u + 1) us @ concat (map assigned_offsets ps)"
      by (simp add: p assigned_offsets_simps)
    from Cons.prems p have b: "batch_respects_offset c us"
      and r: "polls_respect_offset (last (c # map (\<lambda>u. update_id u + 1) us)) ps"
      by (simp_all del: last.simps)
    have "sorted (c # map (\<lambda>u. update_id u + 1) us @ concat (map assigned_offsets ps))"
      by (rule sorted_chain[OF batch_sorted[OF b] Cons.IH[OF r]])
    then show ?thesis by (simp only: eq)
  next
    case False
    then have eq: "concat (map assigned_offsets (p # ps)) = concat (map assigned_offsets ps)"
      by (cases p) (simp_all add: assigned_offsets_simps)
    from False Cons.prems have "polls_respect_offset c ps"
      by (cases p) (simp_all split: if_splits)
    from Cons.IH[OF this] show ?thesis by (simp only: eq)
  qed
qed

lemma worker_cursor_sorted:
  "polls_respect_offset (command_offset b) ps \<Longrightarrow>
     sorted (command_offset b # drop (length (offset_log b)) (offset_log (command_listener_worker lower net ps b)))"
proof (cases "running b")
  case True
  assume "polls_respect_offset (command_offset b) ps"
  then have "sorted (command_offset b # concat (map assigned_offsets ps))" by (rule polls_sorted)
  then show ?thesis by (simp add: worker_offset_log[OF True])
next
  case False
  then show ?thesis by (simp add: worker_stopped)
qed

subsection \<open>Claim C1\<close>

text \<open>
  C1, as the code has it. Processing an update sets the cursor to the update's id plus
  one, and every invocation of the callback and every reply made for that update
  already sees that value; after a successful poll whose batch ends with update \<open>u\<close>
  the cursor is the id of \<open>u\<close> plus one (43 for id 42). The cursor is assigned, not
  compared: the values it takes over a run are non-decreasing when the command source
  keeps the contract of getUpdates, every batch listing only ids at or above the
  cursor, in ascending order.
\<close>

theorem cursor_follows_updates:
  "command_offset (process_update lower net b u) = update_id u + 1
   \<and> list_all (\<lambda>c. c = update_id u + 1)
        (drop (length (door_log b)) (door_log (process_update lower net b u)))
   \<and> list_all (\<lambda>p. fst p = update_id u + 1)
        (drop (length (post_log b)) (post_log (process_update lower net b u)))
   \<and> command_offset (listener_iteration lower net (Response 200 (us @ [u])) b) = update_id u + 1
   \<and> (polls_respect_offset (command_offset b) ps \<longrightarrow>
        sorted (command_offset b #
                drop (length (offset_log b)) (offset_log (command_listener_worker lower net ps b))))"
proof -
  have "command_offset (listener_iteration lower net (Response 200 (us @ [u])) b) = update_id u + 1"
    by (simp add: iteration_offset assigned_offsets_simps)
  then show ?thesis
    using process_update_offset(1) process_update_door_cursor process_update_post_cursor
      worker_cursor_sorted by blast
qed

theorem cursor_follows_updates_witness:
  "polls_respect_offset (command_offset bot0)
     [Response 200 [plain_update 41, text_update 42 1001 (ascii ''/open'')], Timeout,
      Response 200 [plain_update 43]]
   \<and> sorted (command_offset bot0 #
        drop (length (offset_log bot0))
          (offset_log (command_listener_worker lower_basic always_ok
             [Response 200 [plain_update 41, text_update 42 1001 (ascii ''/open'')], Timeout,
              Response 200 [plain_update 43]] bot0)))
   \<and> command_offset (listener_iteration lower_basic always_ok
        (Response 200 ([plain_update 41] @ [text_update 42 1001 (ascii ''/open'')])) bot0) = 43
   \<and> door_log (listener_iteration lower_basic always_ok
        (Response 200 ([plain_update 41] @ [text_update 42 1001 (ascii ''/open'')])) bot0) = [43]"
proof -
  have h: "polls_respect_offset (command_offset bot0)
     [Response 200 [plain_update 41, text_update 42 1001 (ascii ''/open'')], Timeout,
      Response 200 [plain_update 43]]"
    by (simp add: bot0_def new_bot_def plain_update_def text_update_def)
  have d: "door_log (listener_iteration lower_basic always_ok
        (Response 200 ([plain_update 41] @ [text_update 42 1001 (ascii ''/open'')])) bot0) = [43]"
    by code_simp
  show ?thesis
    using h d
      cursor_follows_updates [of lower_basic always_ok bot0 "text_update 42 1001 (ascii ''/open'')" "[plain_update 41]"
        "[Response 200 [plain_update 41, text_update 42 1001 (ascii ''/open'')], Timeout,
          Response 200 [plain_update 43]]"]
    by (simp add: text_update_def)
qed

text \<open>
  The claim as stated, over any run, fails: a second batch that lists an older update
  takes the cursor from 43 back to 8.
\<close>

theorem cursor_rolled_back_counterexample:
  "command_offset (command_listener_worker lower_basic always_ok [Response 200 [plain_update 42]] bot0) = 43
   \<and> command_offset (command_listener_worker lower_basic always_ok
        [Response 200 [plain_update 42], Response 200 [plain_update 7]] bot0) = 8
   \<and> \<not> sorted (offset_log (command_listener_worker lower_basic always_ok
        [Response 200 [plain_update 42], Response 200 [plain_update 7]] bot0))"
  by code_simp


section \<open>Dispatch of commands\<close>

subsection \<open>The enabled flag does not reach the dispatch\<close>

lemma handle_command_reply_open:
  "py_strip (lower c) = ascii ''/open'' \<Longrightarrow> door_controller b = Some f \<Longrightarrow>
     fst (handle_command lower c b) = open_reply (f (length (door_log b)))"
  by (simp add: handle_command_def call_door_controller_def Let_def)

lemma process_message_unauthorized:
  "sender_identity m \<noteq> chat_id b \<Longrightarrow> process_message lower net m b = b"
  by (simp add: process_message_def)

lemma dispatch_view_idem: "dispatch_view (b\<lparr> enabled := e \<rparr>) = dispatch_view b"
  by (simp add: dispatch_view_def)

lemma dispatch_view_fields:
  "running (dispatch_view b) = running b"
  "command_offset (dispatch_view b) = command_offset b"
  "door_log (dispatch_view b) = door_log b"
  "offset_log (dispatch_view b) = offset_log b"
  "fetch_log (dispatch_view b) = fetch_log b"
  by (simp_all add: dispatch_view_def)

lemma handle_command_view:
  "dispatch_view (snd (handle_command lower c b)) = snd (handle_command lower c (dispatch_view b))"
  by (simp add: handle_command_def call_door_controller_def dispatch_view_def Let_def
           split: option.splits)

lemma send_message_view:
  "dispatch_view (snd (send_message net r b)) = dispatch_view b"
  by (simp add: send_message_def dispatch_view_def)

lemma send_message_muted:
  "snd (send_message net r (dispatch_view b)) = dispatch_view b"
  by (simp add: send_message_def dispatch_view_def)

lemma process_message_view:
  "dispatch_view (process_message lower net m b) = process_message lower net' m (dispatch_view b)"
proof -
  have c: "chat_id (dispatch_view b) = chat_id b" by (simp add: dispatch_view_def)
  show ?thesis
  proof (cases "sender_identity m = chat_id b \<and> startswith_slash (message_text m)")
    case True
    have "dispatch_view (process_message lower net m b) =
            dispatch_view (snd (handle_command lower (message_text m) b))"
      using True by (simp add: process_message_def split_beta send_message_view)
    also have "\<dots> = snd (handle_command lower (message_text m) (dispatch_view b))"
      by (rule handle_command_view)
    also have "\<dots> = process_message lower net' m (dispatch_view b)"
      using True c 
      by (simp add: process_message_def split_beta handle_command_view[symmetric] send_message_muted)
    finally show ?thesis .
  next
    case False
    then show ?thesis using c by (auto simp add: process_message_def)
  qed
qed

lemma process_update_view:
  "dispatch_view (process_update lower net b u) = process_update lower net' (dispatch_view b) u"
proof -
  have "dispatch_view (b\<lparr> command_offset := c, offset_log := l \<rparr>) =
        (dispatch_view b)\<lparr> command_offset := c, offset_log := l \<rparr>" for c l
    by (simp add: dispatch_view_def)
  then show ?thesis
    by (simp add: process_update_def Let_def dispatch_view_fields process_message_view[of _ net _ _ net']
            split: option.splits)
qed

lemma batch_view:
  "dispatch_view (foldl (process_update lower net) b us) = foldl (process_update lower net') (dispatch_view b) us"
  by (induction us arbitrary: b) (simp_all add: process_update_view[of _ net _ _ net'])

lemma iteration_view:
  "dispatch_view (listener_iteration lower net p b) = listener_iteration lower net' p (dispatch_view b)"
proof -
  have f: "dispatch_view (b\<lparr> fetch_log := l \<rparr>) = (dispatch_view b)\<lparr> fetch_log := l \<rparr>" for b l
    by (simp add: dispatch_view_def)
  have s: "dispatch_view (b\<lparr> sleep_log := l \<rparr>) = (dispatch_view b)\<lparr> sleep_log := l \<rparr>" for b l
    by (simp add: dispatch_view_def)
  have sl: "sleep_log (dispatch_view b) = sleep_log b" for b by (simp add: dispatch_view_def)
  show ?thesis
    by (simp add: listener_iteration_def Let_def f s sl dispatch_view_fields batch_view[of _ net _ _ net']
             split: poll.splits)
qed

lemma worker_view:
  "dispatch_view (command_listener_worker lower net ps b) = command_listener_worker lower net' ps (dispatch_view b)"
  by (induction ps arbitrary: b)
     (simp_all add: dispatch_view_fields iteration_view[of _ net _ _ net'])

lemma worker_same_dispatch:
  "dispatch_view (command_listener_worker lower net ps (b\<lparr> enabled := e \<rparr>)) =
   dispatch_view (command_listener_worker lower net' ps (b\<lparr> enabled := e' \<rparr>))"
  by (simp add: worker_view[of _ net _ _ net] worker_view[of _ net' _ _ net] dispatch_view_idem)

lemma send_message_enabled:
  "enabled (snd (send_message net r b)) = enabled b"
  "is_configured (snd (send_message net r b)) = is_configured b"
  by (simp_all add: send_message_def is_configured_def)

lemma process_message_enabled:
  "enabled (process_message lower net m b) = enabled b"
  "is_configured (process_message lower net m b) = is_configured b"
  by (simp_all add: process_message_def split_beta send_message_enabled handle_command_frame)

lemma process_update_muted:
  "enabled (process_update lower net b u) = enabled b"
  "\<not> enabled b \<Longrightarrow> post_log (process_update lower net b u) = post_log b"
  by (simp_all add: process_update_def Let_def process_message_enabled process_message_posts
        split: option.splits)

lemma batch_muted:
  "\<not> enabled b \<Longrightarrow>
     \<not> enabled (foldl (process_update lower net) b us) \<and>
     post_log (foldl (process_update lower net) b us) = post_log b"
  by (induction us arbitrary: b) (simp_all add: process_update_muted)

lemma iteration_muted:
  "\<not> enabled b \<Longrightarrow>
     \<not> enabled (listener_iteration lower net p b) \<and> post_log (listener_iteration lower net p b) = post_log b"
  by (simp add: listener_iteration_def Let_def batch_muted split: poll.splits)

lemma worker_muted:
  "\<not> enabled b \<Longrightarrow> post_log (command_listener_worker lower net ps b) = post_log b"
  by (induction ps arbitrary: b) (simp_all add: iteration_muted)

lemma process_update_open:
  assumes "message u = Some m" and "sender_identity m = chat_id b"
    and "startswith_slash (message_text m)"
    and "py_strip (lower (message_text m)) = ascii ''/open''"
    and "door_controller b = Some f"
  shows "door_log (process_update lower net b u) = door_log b @ [update_id u + 1]"
    and "post_log (process_update lower net b u) =
           post_log b @ (if enabled b \<and> is_configured b
                         then [(update_id u + 1, open_reply (f (length (door_log b))))] else [])"
  using assms
  by (simp_all add: process_update_def Let_def process_message_door process_message_posts
        handle_command_reply_open is_configured_def)

lemma process_update_unauthorized:
  assumes "message u = Some m" and "sender_identity m \<noteq> chat_id b"
  shows "process_update lower net b u =
           b\<lparr> command_offset := update_id u + 1, offset_log := offset_log b @ [update_id u + 1] \<rparr>"
  using assms by (simp add: process_update_def Let_def process_message_unauthorized)

subsection \<open>Claim C5\<close>

text \<open>
  C5, as the code has it. An update of the authorized chat whose text starts with a
  slash and is \<open>/open\<close> after \<open>lower()\<close> and \<open>strip()\<close>, for the \<open>str.lower\<close> of
  the interpreter whatever it is, invokes the injected callback exactly once; the reply for the outcome of the callback is sent when the bot is
  enabled and configured, and no request is made otherwise. An update of any other
  sender changes nothing but the cursor: no invocation, no message, no back-off.
\<close>

theorem authorized_open_dispatch:
  "(message u = Some m \<and> sender_identity m = chat_id b \<and> startswith_slash (message_text m) \<and>
    py_strip (lower (message_text m)) = ascii ''/open'' \<and> door_controller b = Some f \<longrightarrow>
      door_log (process_update lower net b u) = door_log b @ [update_id u + 1] \<and>
      post_log (process_update lower net b u) =
        post_log b @ (if enabled b \<and> is_configured b
                      then [(update_id u + 1, open_reply (f (length (door_log b))))] else []))
   \<and> (message u = Some m \<and> sender_identity m \<noteq> chat_id b \<longrightarrow>
        process_update lower net b u =
          b\<lparr> command_offset := update_id u + 1, offset_log := offset_log b @ [update_id u + 1] \<rparr>)"
  using process_update_open process_update_unauthorized by blast

theorem authorized_open_dispatch_witness:
  "sender_identity \<lparr> chat_ident = Some 1001, msg_text = Some open_with_nbsp \<rparr> = chat_id bot0
   \<and> door_log (process_update lower_basic always_ok bot0 (text_update 42 1001 open_with_nbsp)) = [43]
   \<and> post_log (process_update lower_basic always_ok bot0 (text_update 42 1001 open_with_nbsp)) = [(43, DoorOpening)]
   \<and> sender_identity \<lparr> chat_ident = Some 2002, msg_text = Some open_with_nbsp \<rparr> \<noteq> chat_id bot0
   \<and> process_update lower_basic always_ok bot0 (text_update 42 2002 open_with_nbsp) =
         bot0\<lparr> command_offset := 43, offset_log := [43] \<rparr>"
proof -
  let ?m = "\<lparr> chat_ident = Some 1001, msg_text = Some open_with_nbsp \<rparr>"
  let ?m' = "\<lparr> chat_ident = Some 2002, msg_text = Some open_with_nbsp \<rparr>"
  have s: "sender_identity ?m = chat_id bot0" by code_simp
  have s': "sender_identity ?m' \<noteq> chat_id bot0" by code_simp
  have t: "startswith_slash (message_text ?m)" by code_simp
  have c: "py_strip (lower_basic (message_text ?m)) = ascii ''/open''" by code_simp
  have d: "door_controller bot0 = Some door_succeeds" by (simp add: bot0_def)
  have e: "enabled bot0 \<and> is_configured bot0" by (simp add: bot0_def new_bot_def is_configured_def)
  have l: "door_log bot0 = [] \<and> post_log bot0 = [] \<and> offset_log bot0 = []"
    by (simp add: bot0_def new_bot_def)
  show ?thesis
    using s s' t c d e l
      authorized_open_dispatch [of "text_update 42 1001 open_with_nbsp" ?m bot0 lower_basic door_succeeds always_ok]
      authorized_open_dispatch [of "text_update 42 2002 open_with_nbsp" ?m' bot0 lower_basic door_succeeds always_ok]
    by (simp add: text_update_def door_succeeds_def open_reply_def)
qed

text \<open>
  The claim as stated promises a reply for every authorized \<open>/open\<close>: with the enabled
  flag cleared the callback runs and nothing is sent.
\<close>

theorem reply_suppressed_counterexample:
  "sender_identity \<lparr> chat_ident = Some 1001, msg_text = Some (ascii ''/open'') \<rparr>
     = chat_id (bot0\<lparr> enabled := False \<rparr>)
   \<and> door_log (process_update lower_basic always_ok (bot0\<lparr> enabled := False \<rparr>) (text_update 42 1001 (ascii ''/open''))) = [43]
   \<and> post_log (process_update lower_basic always_ok (bot0\<lparr> enabled := False \<rparr>) (text_update 42 1001 (ascii ''/open''))) = []"
  by code_simp

subsection \<open>Claim C9\<close>

text \<open>
  C9. Two runs of the worker on the same polls, one with the enabled flag set and one
  with it cleared, agree on everything but the flag and the messages sent: the same
  requests with the same offsets, the same cursor, the same invocations of the
  callback. With the flag cleared no message is sent; and an authorized \<open>/open\<close>
  invokes the callback exactly once for either value of the flag.
\<close>

theorem enabled_flag_only_mutes:
  "dispatch_view (command_listener_worker lower net ps (b\<lparr> enabled := True \<rparr>)) =
     dispatch_view (command_listener_worker lower net' ps (b\<lparr> enabled := False \<rparr>))
   \<and> door_log (command_listener_worker lower net ps (b\<lparr> enabled := True \<rparr>)) =
       door_log (command_listener_worker lower net' ps (b\<lparr> enabled := False \<rparr>))
   \<and> fetch_log (command_listener_worker lower net ps (b\<lparr> enabled := True \<rparr>)) =
       fetch_log (command_listener_worker lower net' ps (b\<lparr> enabled := False \<rparr>))
   \<and> command_offset (command_listener_worker lower net ps (b\<lparr> enabled := True \<rparr>)) =
       command_offset (command_listener_worker lower net' ps (b\<lparr> enabled := False \<rparr>))
   \<and> post_log (command_listener_worker lower net' ps (b\<lparr> enabled := False \<rparr>)) = post_log b
   \<and> (message u = Some m \<and> sender_identity m = chat_id b \<and> startswith_slash (message_text m) \<and>
       py_strip (lower (message_text m)) = ascii ''/open'' \<and> door_controller b = Some f \<longrightarrow>
         door_log (process_update lower net (b\<lparr> enabled := e \<rparr>) u) = door_log b @ [update_id u + 1])"
proof -
  let ?on = "command_listener_worker lower net ps (b\<lparr> enabled := True \<rparr>)"
  let ?off = "command_listener_worker lower net' ps (b\<lparr> enabled := False \<rparr>)"
  have v: "dispatch_view ?on = dispatch_view ?off" by (rule worker_same_dispatch)
  have "door_log (dispatch_view ?on) = door_log (dispatch_view ?off)" using v by simp
  then have d: "door_log ?on = door_log ?off" by (simp only: dispatch_view_fields)
  have "fetch_log (dispatch_view ?on) = fetch_log (dispatch_view ?off)" using v by simp
  then have g: "fetch_log ?on = fetch_log ?off" by (simp only: dispatch_view_fields)
  have "command_offset (dispatch_view ?on) = command_offset (dispatch_view ?off)" using v by simp
  then have c: "command_offset ?on = command_offset ?off" by (simp only: dispatch_view_fields)
  have p: "post_log ?off = post_log b" using worker_muted [of "b\<lparr> enabled := False \<rparr>" lower net' ps] by simp
  have o: "door_log (process_update lower net (b\<lparr> enabled := e \<rparr>) u) = door_log b @ [update_id u + 1]"
    if "message u = Some m" "sender_identity m = chat_id b" "startswith_slash (message_text m)"
       "py_strip (lower (message_text m)) = ascii ''/open''" "door_controller b = Some f"
    using process_update_open(1) [of u m "b\<lparr> enabled := e \<rparr>" lower f net] that by simp
  show ?thesis using v d g c p o by blast
qed

theorem enabled_flag_only_mutes_witness:
  "door_log (command_listener_worker lower_basic always_ok
      [Response 200 [text_update 42 1001 (ascii ''/open'')]] (bot0\<lparr> enabled := True \<rparr>)) = [43]
   \<and> door_log (command_listener_worker lower_basic always_ok
      [Response 200 [text_update 42 1001 (ascii ''/open'')]] (bot0\<lparr> enabled := False \<rparr>)) = [43]
   \<and> post_log (command_listener_worker lower_basic always_ok
      [Response 200 [text_update 42 1001 (ascii ''/open'')]] (bot0\<lparr> enabled := False \<rparr>)) = []
   \<and> door_log (process_update lower_basic always_ok (bot0\<lparr> enabled := False \<rparr>)
        (text_update 42 1001 open_with_nbsp)) = [43]"
proof -
  let ?m = "\<lparr> chat_ident = Some 1001, msg_text = Some open_with_nbsp \<rparr>"
  let ?ps = "[Response 200 [text_update 42 1001 (ascii ''/open'')]]"
  have on: "door_log (command_listener_worker lower_basic always_ok ?ps (bot0\<lparr> enabled := True \<rparr>)) = [43]"
    by code_simp
  have s: "sender_identity ?m = chat_id bot0" by code_simp
  have t: "startswith_slash (message_text ?m)" by code_simp
  have c: "py_strip (lower_basic (message_text ?m)) = ascii ''/open''" by code_simp
  have d: "door_controller bot0 = Some door_succeeds" by (simp add: bot0_def)
  have l: "door_log bot0 = [] \<and> post_log bot0 = []" by (simp add: bot0_def new_bot_def)
  show ?thesis
    using on s t c d l
      enabled_flag_only_mutes [of lower_basic always_ok ?ps bot0 always_ok "text_update 42 1001 open_with_nbsp" ?m
        door_succeeds False]
    by (simp add: text_update_def)
qed


section \<open>Reconfiguring the listener\<close>

text \<open>
  \<open>update_config\<close> never assigns the cursor, and a change of the enabled flag alone
  touches nothing else. A changed token stops the loop and, after the pause, starts a
  new worker when the old thread has ended by then.
\<close>

lemma update_config_keeps_cursor:
  "command_offset (update_config new_token new_chat_id new_enabled alive b) = command_offset b"
  by (simp add: update_config_def start_command_listener_def stop_command_listener_def Let_def
        split: option.splits)

lemma update_config_enabled_only:
  "update_config None None (Some e) alive b = b\<lparr> enabled := e \<rparr>"
  by (simp add: update_config_def)

lemma update_config_restart_after_exit:
  assumes "running b" and "t \<noteq> bot_token b" and "t \<noteq> []" and "chat_id b \<noteq> []"
  shows "update_config (Some t) None None False b =
           b\<lparr> bot_token := t, running := True, command_thread := Some (threads_started b),
              threads_started := threads_started b + 1, sleep_log := sleep_log b @ [1] \<rparr>"
  using assms
  by (simp add: update_config_def start_command_listener_def stop_command_listener_def
        is_configured_def)

lemma update_config_restart_lost:
  assumes "running b" and "t \<noteq> bot_token b" and "command_thread b \<noteq> None"
  shows "update_config (Some t) None None True b =
           b\<lparr> bot_token := t, running := False, sleep_log := sleep_log b @ [1] \<rparr>"
  using assms
  by (simp add: update_config_def start_command_listener_def stop_command_listener_def)

subsection \<open>Claim C7\<close>

text \<open>
  C7 on the running bot whose worker is still inside its long poll when the pause of
  one second ends. \<open>update_config\<close> with a new token clears the running flag, and
  \<open>start_command_listener\<close> then finds the old thread alive and returns without
  setting the flag again and without starting a thread. The old worker finishes the
  poll in flight and leaves its loop: no later poll is made, the listener stays
  stopped under the new configuration. The cursor is untouched.
\<close>

theorem restart_lost_while_worker_alive:
  "running bot0
   \<and> update_config (Some ''456:def'') None None True bot0 =
       bot0\<lparr> bot_token := ''456:def'', running := False, sleep_log := [1] \<rparr>
   \<and> \<not> running (update_config (Some ''456:def'') None None True bot0)
   \<and> threads_started (update_config (Some ''456:def'') None None True bot0) = threads_started bot0
   \<and> command_listener_worker lower_basic always_ok [Response 200 [text_update 43 1001 (ascii ''/open'')], Timeout]
        (listener_iteration lower_basic always_ok (Response 200 [plain_update 42])
           (update_config (Some ''456:def'') None None True bot0))
       = listener_iteration lower_basic always_ok (Response 200 [plain_update 42])
           (update_config (Some ''456:def'') None None True bot0)"
proof -
  let ?b = "update_config (Some ''456:def'') None None True bot0"
  have r: "running bot0" by (simp add: bot0_def)
  have u: "?b = bot0\<lparr> bot_token := ''456:def'', running := False, sleep_log := [1] \<rparr>"
    by (simp add: update_config_def start_command_listener_def stop_command_listener_def
          bot0_def new_bot_def)
  have n: "\<not> running ?b" by (simp add: u)
  have t: "threads_started ?b = threads_started bot0" by (simp add: u)
  have "\<not> running (listener_iteration lower_basic always_ok (Response 200 [plain_update 42]) ?b)"
    using n by (simp only: iteration_running not_False_eq_True)
  then have w: "command_listener_worker lower_basic always_ok [Response 200 [text_update 43 1001 (ascii ''/open'')], Timeout]
        (listener_iteration lower_basic always_ok (Response 200 [plain_update 42]) ?b)
       = listener_iteration lower_basic always_ok (Response 200 [plain_update 42]) ?b"
    by (rule worker_stopped)
  show ?thesis using r u n t w by blast
qed



section \<open>The bounded logs\<close>

lemma insert_bounded_step:
  "insert_bounded (Suc n) x xs = (if length xs \<le> n then x # xs else x # butlast xs)"
  by (cases xs) (simp_all add: insert_bounded_def)

lemma insert_bounded_take:
  "length xs \<le> n \<Longrightarrow> insert_bounded n x xs = take n (x # xs)"
  by (cases "length xs < n") (simp_all add: insert_bounded_def butlast_conv_take)

lemma take_append_take: "take n (xs @ take n ys) = take n (xs @ ys)"
  by (simp add: min_def)

lemma insert_entry_frame:
  "records (insert_entry s i) = records s" "notifs (insert_entry s i) = notifs s"
  "queues (insert_entry s i) = queues s" "sse_clients (insert_entry s i) = sse_clients s"
  by (cases i; simp add: add_access_record_def add_notification_def)+

lemma inserts_access:
  "length (access_history s) \<le> 50 \<Longrightarrow>
     access_history (foldl insert_entry s is) = take 50 (rev (access_refs is) @ access_history s)"
proof (induction "is" arbitrary: s)
  case Nil
  then show ?case by simp
next
  case (Cons i "is")
  show ?case
  proof (cases i)
    case (IntoAccess r)
    have h: "access_history (insert_entry s i) = take 50 (r # access_history s)"
      using Cons.prems IntoAccess by (simp add: add_access_record_def insert_bounded_take)
    then have "length (access_history (insert_entry s i)) \<le> 50" by simp
    then have "access_history (foldl insert_entry (insert_entry s i) is) =
                 take 50 (rev (access_refs is) @ access_history (insert_entry s i))"
      by (rule Cons.IH)
    also have "\<dots> = take 50 (rev (access_refs is) @ take 50 (r # access_history s))"
      by (simp only: h)
    also have "\<dots> = take 50 (rev (access_refs is) @ r # access_history s)"
      by (rule take_append_take)
    also have "\<dots> = take 50 (rev (access_refs (i # is)) @ access_history s)"
      by (simp add: IntoAccess)
    finally show ?thesis by simp
  next
    case (IntoNotifications n)
    have h: "access_history (insert_entry s i) = access_history s"
      using IntoNotifications by (simp add: add_notification_def)
    then have "length (access_history (insert_entry s i)) \<le> 50" using Cons.prems by simp
    then have "access_history (foldl insert_entry (insert_entry s i) is) =
                 take 50 (rev (access_refs is) @ access_history (insert_entry s i))"
      by (rule Cons.IH)
    also have "\<dots> = take 50 (rev (access_refs is) @ access_history s)"
      by (simp only: h)
    also have "\<dots> = take 50 (rev (access_refs (i # is)) @ access_history s)"
      by (simp add: IntoNotifications)
    finally show ?thesis by simp
  qed
qed

lemma inserts_notifications:
  "length (notifications s) \<le> 20 \<Longrightarrow>
     notifications (foldl insert_entry s is) = take 20 (rev (notification_refs is) @ notifications s)"
proof (induction "is" arbitrary: s)
  case Nil
  then show ?case by simp
next
  case (Cons i "is")
  show ?case
  proof (cases i)
    case (IntoNotifications n)
    have h: "notifications (insert_entry s i) = take 20 (n # notifications s)"
      using Cons.prems IntoNotifications by (simp add: add_notification_def insert_bounded_take)
    then have "length (notifications (insert_entry s i)) \<le> 20" by simp
    then have "notifications (foldl insert_entry (insert_entry s i) is) =
                 take 20 (rev (notification_refs is) @ notifications (insert_entry s i))"
      by (rule Cons.IH)
    also have "\<dots> = take 20 (rev (notification_refs is) @ take 20 (n # notifications s))"
      by (simp only: h)
    also have "\<dots> = take 20 (rev (notification_refs is) @ n # notifications s)"
      by (rule take_append_take)
    also have "\<dots> = take 20 (rev (notification_refs (i # is)) @ notifications s)"
      by (simp add: IntoNotifications)
    finally show ?thesis by simp
  next
    case (IntoAccess r)
    have h: "notifications (insert_entry s i) = notifications s"
      using IntoAccess by (simp add: add_access_record_def)
    then have "length (notifications (insert_entry s i)) \<le> 20" using Cons.prems by simp
    then have "notifications (foldl insert_entry (insert_entry s i) is) =
                 take 20 (rev (notification_refs is) @ notifications (insert_entry s i))"
      by (rule Cons.IH)
    also have "\<dots> = take 20 (rev (notification_refs is) @ notifications s)"
      by (simp only: h)
    also have "\<dots> = take 20 (rev (notification_refs (i # is)) @ notifications s)"
      by (simp add: IntoAccess)
    finally show ?thesis by simp
  qed
qed

subsection \<open>Claim C2\<close>

text \<open>
  C2. After any sequence of insertions into the two logs of the freshly loaded
  application, the access history is the last 50 inserted references, newest first,
  and the notifications are the last 20, newest first. A single insertion puts the new
  entry in front and, when the log is full, drops exactly the last entry.
\<close>

theorem logs_bounded_newest_first:
  "access_history (foldl insert_entry (initial_state b) is) = take 50 (rev (access_refs is))
   \<and> notifications (foldl insert_entry (initial_state b) is) = take 20 (rev (notification_refs is))
   \<and> length (access_history (foldl insert_entry (initial_state b) is)) \<le> 50
   \<and> length (notifications (foldl insert_entry (initial_state b) is)) \<le> 20
   \<and> access_history (add_access_record r s) =
       (if length (access_history s) < 50 then r # access_history s
        else r # butlast (access_history s))
   \<and> notifications (add_notification n s) =
       (if length (notifications s) < 20 then n # notifications s
        else n # butlast (notifications s))"
proof -
  have a: "access_history (foldl insert_entry (initial_state b) is) = take 50 (rev (access_refs is))"
    using inserts_access [of "initial_state b" "is"] by (simp add: initial_state_def)
  have n: "notifications (foldl insert_entry (initial_state b) is) = take 20 (rev (notification_refs is))"
    using inserts_notifications [of "initial_state b" "is"] by (simp add: initial_state_def)
  have la: "length (access_history (foldl insert_entry (initial_state b) is)) \<le> 50"
    by (simp only: a length_take min.cobounded2)
  have ln: "length (notifications (foldl insert_entry (initial_state b) is)) \<le> 20"
    by (simp only: n length_take min.cobounded2)
  have sa: "access_history (add_access_record r s) =
       (if length (access_history s) < 50 then r # access_history s
        else r # butlast (access_history s))"
    using insert_bounded_step [of 49 r "access_history s"]
    by (auto simp add: add_access_record_def)
  have sn: "notifications (add_notification n s) =
       (if length (notifications s) < 20 then n # notifications s
        else n # butlast (notifications s))"
    using insert_bounded_step [of 19 n "notifications s"]
    by (auto simp add: add_notification_def)
  show ?thesis using a n la ln sa sn by blast
qed



section \<open>The manual grant\<close>

lemma grant_record_fields:
  "access_granted (grant_record now r) = True"
  "status (grant_record now r) = ''granted''"
  "method_tag (grant_record now r) = method_tag r @ ''_manual_override''"
  "recognition_result (grant_record now r) = ''Acces permis manual''"
  "manual_grant_timestamp (grant_record now r) = Some now"
  "filename (grant_record now r) = filename r"
  "uid (grant_record now r) = uid r"
  "timestamp (grant_record now r) = timestamp r"
  "image_url (grant_record now r) = image_url r"
  "recognized_person (grant_record now r) = recognized_person r"
  by (simp_all add: grant_record_def)

lemma grant_notification_fields:
  "access_granted (grant_notification n) = True"
  "status (grant_notification n) = ''granted''"
  "recognition_result (grant_notification n) = ''Acces permis manual''"
  "method_tag (grant_notification n) = method_tag n"
  "filename (grant_notification n) = filename n"
  "uid (grant_notification n) = uid n"
  "timestamp (grant_notification n) = timestamp n"
  "image_url (grant_notification n) = image_url n"
  by (simp_all add: grant_notification_def)

lemma notify_clients_frame:
  "records (notify_clients msg s) = records s"
  "notifs (notify_clients msg s) = notifs s"
  "access_history (notify_clients msg s) = access_history s"
  "notifications (notify_clients msg s) = notifications s"
  "sse_clients (notify_clients msg s) = sse_clients s"
  "next_addr (notify_clients msg s) = next_addr s"
  "door_requests (notify_clients msg s) = door_requests s"
  "bot (notify_clients msg s) = bot s"
  "files (notify_clients msg s) = files s"
  "pending (notify_clients msg s) = pending s"
  by (simp_all add: notify_clients_def)

lemma grant_access_records:
  "records (snd (grant_access True fname now s)) =
     (case find (\<lambda>a. filename (records s a) = fname) (access_history s) of
        Some a \<Rightarrow> (records s)(a := grant_record now (records s a))
      | None \<Rightarrow> records s)"
  by (simp add: grant_access_def Let_def notify_clients_frame split: option.splits)

lemma grant_access_notifs:
  "notifs (snd (grant_access True fname now s)) =
     (case find (\<lambda>a. filename (notifs s a) = fname) (notifications s) of
        Some a \<Rightarrow> (notifs s)(a := grant_notification (notifs s a))
      | None \<Rightarrow> notifs s)"
  by (simp add: grant_access_def Let_def notify_clients_frame split: option.splits)

lemma grant_access_lists:
  "access_history (snd (grant_access li fname now s)) = access_history s"
  "notifications (snd (grant_access li fname now s)) = notifications s"
  "sse_clients (snd (grant_access li fname now s)) = sse_clients s"
  by (simp_all add: grant_access_def Let_def notify_clients_frame split: option.splits)

lemma grant_access_response:
  "fst (grant_access True fname now s) =
     (JObj [(''success'', JBool True),
            (''message'', JStr (grant_message fname)),
            (''record_updated'',
               JBool (find (\<lambda>a. filename (records s a) = fname) (access_history s) \<noteq> None)),
            (''notification_updated'',
               JBool (find (\<lambda>a. filename (notifs s a) = fname) (notifications s) \<noteq> None))], 200)"
  by (simp add: grant_access_def Let_def split: option.splits)

lemma grant_access_no_match:
  assumes "find (\<lambda>a. filename (records s a) = fname) (access_history s) = None"
    and "find (\<lambda>a. filename (notifs s a) = fname) (notifications s) = None"
  shows "snd (grant_access True fname now s) = s"
  using assms by (simp add: grant_access_def Let_def)

lemma grant_access_unauthenticated:
  "grant_access False fname now s = (unauthenticated, s)"
  by (simp add: grant_access_def)


subsection \<open>Claim C4\<close>

text \<open>
  C4. A manual grant by an authenticated client changes, in place, the first record of
  the access history that carries the file name (granted, status \<open>granted\<close>,
  \<open>_manual_override\<close> appended to the method, the result label, the override
  timestamp) and the first notification that carries it (granted, status \<open>granted\<close>,
  the result label); every other dictionary and both lists stay as they were. The
  response reports the two outcomes as two flags of their own. When neither log has an
  entry with the file name the state is unchanged and both flags are false.
\<close>

theorem manual_grant_first_match:
  "records (snd (grant_access True fname now s)) =
     (case find (\<lambda>a. filename (records s a) = fname) (access_history s) of
        Some a \<Rightarrow> (records s)(a := grant_record now (records s a))
      | None \<Rightarrow> records s)
   \<and> notifs (snd (grant_access True fname now s)) =
     (case find (\<lambda>a. filename (notifs s a) = fname) (notifications s) of
        Some a \<Rightarrow> (notifs s)(a := grant_notification (notifs s a))
      | None \<Rightarrow> notifs s)
   \<and> access_history (snd (grant_access True fname now s)) = access_history s
   \<and> notifications (snd (grant_access True fname now s)) = notifications s
   \<and> fst (grant_access True fname now s) =
       (JObj [(''success'', JBool True),
              (''message'', JStr (grant_message fname)),
              (''record_updated'',
                 JBool (find (\<lambda>a. filename (records s a) = fname) (access_history s) \<noteq> None)),
              (''notification_updated'',
                 JBool (find (\<lambda>a. filename (notifs s a) = fname) (notifications s) \<noteq> None))], 200)
   \<and> access_granted (grant_record now r) \<and> status (grant_record now r) = ''granted''
   \<and> method_tag (grant_record now r) = method_tag r @ ''_manual_override''
   \<and> recognition_result (grant_record now r) = ''Acces permis manual''
   \<and> manual_grant_timestamp (grant_record now r) = Some now
   \<and> access_granted (grant_notification n) \<and> status (grant_notification n) = ''granted''
   \<and> recognition_result (grant_notification n) = ''Acces permis manual''
   \<and> method_tag (grant_notification n) = method_tag n
   \<and> (find (\<lambda>a. filename (records s a) = fname) (access_history s) = None \<and>
       find (\<lambda>a. filename (notifs s a) = fname) (notifications s) = None \<longrightarrow>
         snd (grant_access True fname now s) = s)"
proof -
  have nm: "find (\<lambda>a. filename (records s a) = fname) (access_history s) = None \<and>
       find (\<lambda>a. filename (notifs s a) = fname) (notifications s) = None \<longrightarrow>
         snd (grant_access True fname now s) = s"
    using grant_access_no_match by blast
  show ?thesis
    by (intro conjI;
        (fact nm | simp only: grant_access_records grant_access_notifs grant_access_lists
          grant_access_response grant_record_fields grant_notification_fields))
qed

theorem manual_grant_first_match_witness:
  "find (\<lambda>a. filename (records logged_state a) = ''missing.jpg'') (access_history logged_state) = None
   \<and> find (\<lambda>a. filename (notifs logged_state a) = ''missing.jpg'') (notifications logged_state) = None
   \<and> snd (grant_access True ''missing.jpg'' ''2025-01-01T10:05:00'' logged_state) = logged_state
   \<and> fst (grant_access True ''missing.jpg'' ''2025-01-01T10:05:00'' logged_state) =
       (JObj [(''success'', JBool True),
              (''message'', JStr (grant_message ''missing.jpg'')),
              (''record_updated'', JBool False),
              (''notification_updated'', JBool False)], 200)"
proof -
  have r: "find (\<lambda>a. filename (records logged_state a) = ''missing.jpg'') (access_history logged_state) = None"
    by code_simp
  have n: "find (\<lambda>a. filename (notifs logged_state a) = ''missing.jpg'') (notifications logged_state) = None"
    by code_simp
  show ?thesis
    using r n
      manual_grant_first_match [of "''missing.jpg''" "''2025-01-01T10:05:00''" logged_state]
    by simp
qed

text \<open>
  Two records and two notifications carry the same file name: the grant changes the
  newest of each (the first in its list) and leaves the older one as it was.
\<close>

lemma manual_grant_on_two_matches:
  "access_history twice_logged_state = [2, 0]
   \<and> notifications twice_logged_state = [3, 1]
   \<and> map (\<lambda>a. filename (records twice_logged_state a)) [2, 0] = [''visitor_1.jpg'', ''visitor_1.jpg'']
   \<and> map (\<lambda>a. filename (notifs twice_logged_state a)) [3, 1] = [''visitor_1.jpg'', ''visitor_1.jpg'']
   \<and> map (\<lambda>a. access_granted
               (records (snd (grant_access True ''visitor_1.jpg'' ''2025-01-01T10:05:00''
                                twice_logged_state)) a)) [2, 0] = [True, False]
   \<and> map (\<lambda>a. method_tag
               (records (snd (grant_access True ''visitor_1.jpg'' ''2025-01-01T10:05:00''
                                twice_logged_state)) a)) [2, 0] = [''manual_manual_override'', ''automatic'']
   \<and> map (\<lambda>a. access_granted
               (notifs (snd (grant_access True ''visitor_1.jpg'' ''2025-01-01T10:05:00''
                               twice_logged_state)) a)) [3, 1] = [True, False]"
  by code_simp


section \<open>The recognition pipeline\<close>

lemma recognize_face_raises:
  "recognize_face (FindRaises e) = \<lparr> granted = False, person = None, verdict = ''error'', error = Some e \<rparr>"
  by (simp add: recognize_face_def)

lemma pipeline_on_failure:
  fixes inp e path meth s
  defines "inp' \<equiv> inp\<lparr> find_result := FindRaises e \<rparr>"
  defines "s' \<equiv> snd (process_face_recognition inp' path meth s)"
  shows "fst (process_face_recognition inp' path meth s) = next_addr s"
    and "records s' (next_addr s) =
           create_access_record (record_uid inp) (now_iso inp) (basename path)
             \<lparr> granted = False, person = None, verdict = ''error'', error = Some e \<rparr> meth"
    and "notifs s' (next_addr s + 1) =
           create_notification (notification_uid inp) (records s' (next_addr s))"
    and "access_history s' = insert_bounded 50 (next_addr s) (access_history s)"
    and "notifications s' = insert_bounded 20 (next_addr s + 1) (notifications s)"
    and "door_requests s' = door_requests s"
  unfolding inp'_def s'_def
  by (simp_all add: process_face_recognition_def Let_def split_beta recognize_face_raises
        notify_clients_frame add_access_record_def add_notification_def)

lemma insert_bounded_hd: "hd (insert_bounded (Suc n) x xs) = x"
  by (simp add: insert_bounded_step)

lemma notify_clients_queues_cong:
  "queues s = queues t \<Longrightarrow> sse_clients s = sse_clients t \<Longrightarrow>
     queues (notify_clients msg s) = queues (notify_clients msg t)"
  by (simp add: notify_clients_def)

lemma pipeline_publishes:
  fixes inp path meth s
  defines "s' \<equiv> snd (process_face_recognition inp path meth s)"
  shows "queues s' =
     queues (notify_clients
       (JObj [(''type'', JStr (event_type_of meth (granted (recognize_face (find_result inp))))),
              (''data'', notification_json (notifs s' (next_addr s + 1)))]) s)"
  unfolding s'_def
  by (simp add: process_face_recognition_def Let_def split_beta notify_clients_frame
        add_access_record_def add_notification_def open_door_def notify_clients_def
        split: http_outcome.splits)

subsection \<open>Claim C3\<close>

text \<open>
  C3. When the recognizer raises, the task still runs to its end and returns its
  record: the record is new, first in the access history, not granted and of status
  \<open>error\<close>; the notification derived from it is first in the notifications with the
  same verdict; the door is not asked to open; the event is published to the
  dashboards. The result of the future is the record, not an error.
\<close>

theorem recognizer_failure_recorded:
  fixes inp e path meth s
  defines "failing \<equiv> inp\<lparr> find_result := FindRaises e \<rparr>"
  defines "s' \<equiv> snd (process_face_recognition failing path meth s)"
  shows "run_task failing (path, meth) s = (Some (next_addr s), s')
   \<and> access_granted (records s' (next_addr s)) = False
   \<and> status (records s' (next_addr s)) = ''error''
   \<and> hd (access_history s') = next_addr s
   \<and> access_granted (notifs s' (hd (notifications s'))) = False
   \<and> status (notifs s' (hd (notifications s'))) = ''error''
   \<and> door_requests s' = door_requests s
   \<and> queues s' =
       queues (notify_clients
         (JObj [(''type'', JStr (event_type_of meth False)),
                (''data'', notification_json (notifs s' (hd (notifications s'))))]) s)"
proof -
  note f = pipeline_on_failure [where inp = inp and e = e and path = path and meth = meth and s = s,
    folded failing_def, folded s'_def]
  have h: "hd (notifications s') = next_addr s + 1"
    using f(5) insert_bounded_hd [of 19 "next_addr s + 1" "notifications s"] by simp
  have t: "run_task failing (path, meth) s = (Some (next_addr s), s')"
    using f(1) by (simp add: run_task_def split_beta s'_def)
  have a: "hd (access_history s') = next_addr s"
    using insert_bounded_hd [of 49 "next_addr s" "access_history s"] by (simp add: f(4))
  have r: "access_granted (records s' (next_addr s)) = False \<and>
           status (records s' (next_addr s)) = ''error''"
    by (simp add: f(2) create_access_record_def)
  have n: "access_granted (notifs s' (next_addr s + 1)) = False \<and>
           status (notifs s' (next_addr s + 1)) = ''error''"
    using r f(3) by (simp add: create_notification_def)
  have g: "granted (recognize_face (find_result failing)) = False"
    by (simp add: failing_def recognize_face_raises)
  have q: "queues s' =
       queues (notify_clients
         (JObj [(''type'', JStr (event_type_of meth False)),
                (''data'', notification_json (notifs s' (next_addr s + 1)))]) s)"
    using pipeline_publishes [where inp = failing and path = path and meth = meth and s = s] g
    by (simp add: s'_def)
  show ?thesis using t r a n h f(6) q by simp
qed

subsection \<open>Claim C10\<close>

text \<open>
  C10. The response of \<open>upload\<close> is fixed by the time stamp alone: status
  \<open>processing\<close> and \<open>access_granted\<close> false, whether the task is still queued when the
  handler returns or a worker has already run it, and whatever the recognizer found.
  The last conjunct shows a run in which the recognizer has already granted access
  when the response is built.
\<close>

theorem upload_response_fixed:
  "fst (upload stamp body early s) =
     (JObj [(''status'', JStr ''processing''),
            (''message'', JStr ''Image uploaded, processing face recognition...''),
            (''filename'', JStr (''visitor_'' @ stamp @ ''.jpg'')),
            (''access_granted'', JBool False)], 200)
   \<and> access_granted
        (records (snd (upload stamp body (Some (inp\<lparr> find_result := Found [[p]] \<rparr>)) s))
           (next_addr s)) = True"
  by (simp add: upload_def Let_def submit_def run_task_def split_beta process_face_recognition_def
        recognize_face_def create_access_record_def notify_clients_frame add_access_record_def
        add_notification_def open_door_def split: http_outcome.splits)


section \<open>The broadcast hub\<close>

text \<open>
  Publishing appends the message to every registered queue, and a tick delivers the
  oldest message of a queue.
\<close>

lemma notify_fold:
  "foldl (\<lambda>q a. q(a := q a @ [msg])) q0 as c =
     q0 c @ replicate (count_list as c) msg"
  by (induction as arbitrary: q0) (simp_all add: replicate_app_Cons_same)

lemma notify_clients_appends:
  "distinct (sse_clients s) \<Longrightarrow>
     queues (notify_clients msg s) c =
       (if c \<in> set (sse_clients s) then queues s c @ [msg] else queues s c)"
proof -
  have d: "distinct as \<Longrightarrow> count_list as c = (if c \<in> set as then 1 else 0)" for as
    by (induction as) auto
  assume "distinct (sse_clients s)"
  then show ?thesis by (simp add: notify_clients_def notify_fold d)
qed

lemma sse_tick_fifo:
  "queues s c = msg # rest \<Longrightarrow>
     fst (sse_tick c s) = msg \<and> queues (snd (sse_tick c s)) c = rest"
  by (simp add: sse_tick_def)


subsection \<open>Claim C6\<close>

text \<open>
  C6 on two connected dashboards whose queues are both empty, when the second one
  disconnects. \<open>client_queue in sse_clients\<close> and \<open>sse_clients.remove(client_queue)\<close>
  compare lists by their contents, and the first queue of the registry is equal to
  the one that leaves: the queue of the first dashboard is removed, the queue of the
  one that left stays registered. The next event goes to the queue nobody reads, and
  the dashboard that is still connected gets a ping.
\<close>

theorem disconnect_removes_other_inbox:
  "sse_clients two_clients = [0, 1]
   \<and> queues two_clients 0 = [] \<and> queues two_clients 1 = []
   \<and> sse_clients (sse_disconnect 1 two_clients) = [1]
   \<and> queues (notify_clients door_event (sse_disconnect 1 two_clients)) 0 = []
   \<and> queues (notify_clients door_event (sse_disconnect 1 two_clients)) 1 = [door_event]
   \<and> fst (sse_tick 0 (notify_clients door_event (sse_disconnect 1 two_clients)))
       = JObj [(''type'', JStr ''ping'')]"
  by code_simp


section \<open>Snapshots of the logs\<close>

subsection \<open>The blocks are the writes of the handlers\<close>

text \<open>
  The state a run of the pipeline leaves is the state its blocks leave, and the
  dictionaries and lists after a manual grant are those after its two blocks.
\<close>

lemma pipeline_in_blocks:
  "snd (process_face_recognition inp path meth s) = foldl run_block s (pipeline_blocks inp path meth s)"
  by (simp add: process_face_recognition_def pipeline_blocks_def Let_def split_beta store_record_def
        store_notification_def add_access_record_def add_notification_def notify_clients_def
        open_door_def split: http_outcome.splits)

lemma grant_access_in_blocks:
  "records (snd (grant_access True fname now s)) =
     records (foldl run_block s [GrantRecord fname now, GrantNotification fname])
   \<and> notifs (snd (grant_access True fname now s)) =
     notifs (foldl run_block s [GrantRecord fname now, GrantNotification fname])
   \<and> access_history (snd (grant_access True fname now s)) =
     access_history (foldl run_block s [GrantRecord fname now, GrantNotification fname])
   \<and> notifications (snd (grant_access True fname now s)) =
     notifications (foldl run_block s [GrantRecord fname now, GrantNotification fname])"
  by (simp add: grant_access_records grant_access_notifs grant_access_lists
        grant_record_block_def grant_notification_block_def split: option.splits)

lemma block_keeps_history:
  assumes "lock_of b \<noteq> Some AccessHistoryLock"
  shows "access_history (run_block s b) = access_history s"
    and "next_addr s \<le> next_addr (run_block s b)"
    and "a < next_addr s \<Longrightarrow> records (run_block s b) a = records s a"
  using assms
  by (cases b;
      simp add: store_record_def store_notification_def add_notification_def
        clear_notifications_def grant_notification_block_def notify_clients_def sse_connect_def
        sse_tick_def sse_disconnect_def open_door_def Let_def
        split: option.splits list.splits http_outcome.splits)+

lemma block_keeps_notifications:
  assumes "lock_of b \<noteq> Some NotificationsLock"
  shows "notifications (run_block s b) = notifications s"
    and "next_addr s \<le> next_addr (run_block s b)"
    and "a < next_addr s \<Longrightarrow> notifs (run_block s b) a = notifs s a"
  using assms
  by (cases b;
      simp add: store_record_def store_notification_def add_access_record_def
        grant_record_block_def notify_clients_def sse_connect_def
        sse_tick_def sse_disconnect_def open_door_def Let_def
        split: option.splits list.splits http_outcome.splits)+

lemma blocks_keep_history:
  "free_of AccessHistoryLock bs \<Longrightarrow>
     access_history (foldl run_block s bs) = access_history s \<and>
     next_addr s \<le> next_addr (foldl run_block s bs) \<and>
     (\<forall>a < next_addr s. records (foldl run_block s bs) a = records s a)"
proof (induction bs arbitrary: s)
  case Nil
  then show ?case by simp
next
  case (Cons b bs)
  from Cons.prems have b: "lock_of b \<noteq> Some AccessHistoryLock" and bs: "free_of AccessHistoryLock bs"
    by (simp_all add: free_of_def)
  note ih = Cons.IH [OF bs, where s = "run_block s b"]
  note k = block_keeps_history [OF b, where s = s]
  show ?case
  proof (intro conjI allI impI)
    show "access_history (foldl run_block s (b # bs)) = access_history s"
      using ih k(1) by simp
    show "next_addr s \<le> next_addr (foldl run_block s (b # bs))"
      using ih k(2) by simp
    fix a assume a: "a < next_addr s"
    then have "a < next_addr (run_block s b)" using k(2) by simp
    then have "records (foldl run_block (run_block s b) bs) a = records (run_block s b) a"
      using ih by blast
    then show "records (foldl run_block s (b # bs)) a = records s a"
      using k(3) [OF a] by simp
  qed
qed

lemma blocks_keep_notifications:
  "free_of NotificationsLock bs \<Longrightarrow>
     notifications (foldl run_block s bs) = notifications s \<and>
     next_addr s \<le> next_addr (foldl run_block s bs) \<and>
     (\<forall>a < next_addr s. notifs (foldl run_block s bs) a = notifs s a)"
proof (induction bs arbitrary: s)
  case Nil
  then show ?case by simp
next
  case (Cons b bs)
  from Cons.prems have b: "lock_of b \<noteq> Some NotificationsLock" and bs: "free_of NotificationsLock bs"
    by (simp_all add: free_of_def)
  note ih = Cons.IH [OF bs, where s = "run_block s b"]
  note k = block_keeps_notifications [OF b, where s = s]
  show ?case
  proof (intro conjI allI impI)
    show "notifications (foldl run_block s (b # bs)) = notifications s"
      using ih k(1) by simp
    show "next_addr s \<le> next_addr (foldl run_block s (b # bs))"
      using ih k(2) by simp
    fix a assume a: "a < next_addr s"
    then have "a < next_addr (run_block s b)" using k(2) by simp
    then have "notifs (foldl run_block (run_block s b) bs) a = notifs (run_block s b) a"
      using ih by blast
    then show "notifs (foldl run_block s (b # bs)) a = notifs s a"
      using k(3) [OF a] by simp
  qed
qed

lemma read_history_among:
  assumes "allocated s" and "free_of AccessHistoryLock others"
  shows "fst (get_access_history_among others s) = get_access_history True s"
proof -
  note k = blocks_keep_history [OF assms(2), where s = s]
  have "map (\<lambda>a. record_json (records (foldl run_block s others) a)) (access_history s) =
        map (\<lambda>a. record_json (records s a)) (access_history s)"
  proof (rule map_cong [OF refl])
    fix a assume "a \<in> set (access_history s)"
    then have "a < next_addr s" using assms(1) by (simp add: allocated_def list_all_iff)
    then show "record_json (records (foldl run_block s others) a) = record_json (records s a)"
      using k by simp
  qed
  then show ?thesis by (simp add: get_access_history_among_def get_access_history_def Let_def)
qed

lemma read_notifications_among:
  assumes "allocated s" and "free_of NotificationsLock others"
  shows "fst (get_notifications_among others s) = get_notifications True s"
proof -
  note k = blocks_keep_notifications [OF assms(2), where s = s]
  have "map (\<lambda>a. notification_json (notifs (foldl run_block s others) a)) (notifications s) =
        map (\<lambda>a. notification_json (notifs s a)) (notifications s)"
  proof (rule map_cong [OF refl])
    fix a assume "a \<in> set (notifications s)"
    then have "a < next_addr s" using assms(1) by (simp add: allocated_def list_all_iff)
    then show "notification_json (notifs (foldl run_block s others) a) = notification_json (notifs s a)"
      using k by simp
  qed
  then show ?thesis by (simp add: get_notifications_among_def get_notifications_def Let_def)
qed

lemma run_actions_append:
  "run_actions (pre @ post) s =
     (fst (run_actions pre s) @ fst (run_actions post (snd (run_actions pre s))),
      snd (run_actions post (snd (run_actions pre s))))"
  by (induction pre arbitrary: s) (simp_all add: split_beta)

lemma run_actions_length: "length (fst (run_actions as s)) = length as"
  by (induction as arbitrary: s) (simp_all add: split_beta)


text \<open>
  Without the lock the read is not safe: a manual grant that runs between the copy and
  the serialization shows in the body, and a list of references read after a manual
  grant shows the grant. The store tells a reference from a copy of the entries.
\<close>

lemma unlocked_read_shows_grant:
  "fst (fst (get_access_history_among [GrantRecord ''visitor_1.jpg'' ''2025-01-01T10:05:00'']
               logged_state))
     \<noteq> fst (get_access_history True logged_state)"
  by code_simp

lemma references_show_later_grant:
  "map (\<lambda>a. access_granted (records logged_state a)) (access_history logged_state) = [False]
   \<and> map (\<lambda>a. access_granted
               (records (snd (grant_access True ''visitor_1.jpg'' ''2025-01-01T10:05:00'' logged_state)) a))
         (access_history logged_state) = [True]"
  by code_simp

subsection \<open>Claim C8\<close>

text \<open>
  C8. A snapshot read copies the list and serializes the copy while it holds the lock
  of the list. Whatever the other threads run in between, which can only be blocks
  that do not need that lock, the body is the serialization of the entries as they
  were when the list was copied: no block outside the lock writes the list or an entry
  it refers to. The body is a serialization and holds no reference into the log, so
  in a run of operations the body returned after \<open>pre\<close> is that of the state \<open>pre\<close>
  leads to, for every continuation \<open>post\<close> of insertions, manual grants and clearings.
\<close>

theorem snapshot_is_a_copy:
  "(allocated s \<and> free_of AccessHistoryLock others \<longrightarrow>
      fst (get_access_history_among others s) = get_access_history True s)
   \<and> (allocated s \<and> free_of NotificationsLock others \<longrightarrow>
      fst (get_notifications_among others s) = get_notifications True s)
   \<and> fst (get_access_history True s) = JArr (map (\<lambda>a. record_json (records s a)) (access_history s))
   \<and> fst (get_notifications True s) = JArr (map (\<lambda>a. notification_json (notifs s a)) (notifications s))
   \<and> take (length pre) (fst (run_actions (pre @ post) s)) = fst (run_actions pre s)
   \<and> fst (run_actions (pre @ ReadAccessHistory # post) s) ! length pre =
       Some (JArr (map (\<lambda>a. record_json (records (snd (run_actions pre s)) a))
                     (access_history (snd (run_actions pre s)))))
   \<and> fst (run_actions (pre @ ReadNotifications # post) s) ! length pre =
       Some (JArr (map (\<lambda>a. notification_json (notifs (snd (run_actions pre s)) a))
                     (notifications (snd (run_actions pre s)))))"
proof -
  have h: "allocated s \<and> free_of AccessHistoryLock others \<longrightarrow>
      fst (get_access_history_among others s) = get_access_history True s"
    using read_history_among by blast
  have n: "allocated s \<and> free_of NotificationsLock others \<longrightarrow>
      fst (get_notifications_among others s) = get_notifications True s"
    using read_notifications_among by blast
  have r: "fst (get_access_history True s) = JArr (map (\<lambda>a. record_json (records s a)) (access_history s))
   \<and> fst (get_notifications True s) = JArr (map (\<lambda>a. notification_json (notifs s a)) (notifications s))
   \<and> take (length pre) (fst (run_actions (pre @ post) s)) = fst (run_actions pre s)
   \<and> fst (run_actions (pre @ ReadAccessHistory # post) s) ! length pre =
       Some (JArr (map (\<lambda>a. record_json (records (snd (run_actions pre s)) a))
                     (access_history (snd (run_actions pre s)))))
   \<and> fst (run_actions (pre @ ReadNotifications # post) s) ! length pre =
       Some (JArr (map (\<lambda>a. notification_json (notifs (snd (run_actions pre s)) a))
                     (notifications (snd (run_actions pre s)))))"
    by (simp add: run_actions_append run_actions_length get_access_history_def get_notifications_def
          split_beta nth_append)
  show ?thesis using h n r by blast
qed

text \<open>
  While a reader holds the lock of the access history, a second visitor is recorded up
  to the insertion that needs the lock, a notification is added, granted and the
  notifications are cleared, an event is published: the body is that of the log as it
  was copied. The same for a reader of the notifications while the access history is
  written.
\<close>

theorem snapshot_is_a_copy_witness:
  "allocated logged_state
   \<and> free_of AccessHistoryLock
        [StoreRecord empty_record, StoreNotification empty_notification, AddNotification 3,
         GrantNotification ''visitor_1.jpg'', NotifyClients door_event, ClearNotifications]
   \<and> fst (get_access_history_among
        [StoreRecord empty_record, StoreNotification empty_notification, AddNotification 3,
         GrantNotification ''visitor_1.jpg'', NotifyClients door_event, ClearNotifications]
        logged_state) = get_access_history True logged_state
   \<and> free_of NotificationsLock
        [StoreRecord empty_record, AddAccessRecord 2,
         GrantRecord ''visitor_1.jpg'' ''2025-01-01T10:05:00'', NotifyClients door_event]
   \<and> fst (get_notifications_among
        [StoreRecord empty_record, AddAccessRecord 2,
         GrantRecord ''visitor_1.jpg'' ''2025-01-01T10:05:00'', NotifyClients door_event]
        logged_state) = get_notifications True logged_state"
proof -
  have a: "allocated logged_state" by code_simp
  have f: "free_of AccessHistoryLock
        [StoreRecord empty_record, StoreNotification empty_notification, AddNotification 3,
         GrantNotification ''visitor_1.jpg'', NotifyClients door_event, ClearNotifications]"
    by (simp add: free_of_def)
  have g: "free_of NotificationsLock
        [StoreRecord empty_record, AddAccessRecord 2,
         GrantRecord ''visitor_1.jpg'' ''2025-01-01T10:05:00'', NotifyClients door_event]"
    by (simp add: free_of_def)
  show ?thesis
    using a f g
      snapshot_is_a_copy [of logged_state
        "[StoreRecord empty_record, StoreNotification empty_notification, AddNotification 3,
          GrantNotification ''visitor_1.jpg'', NotifyClients door_event, ClearNotifications]"]
      snapshot_is_a_copy [of logged_state
        "[StoreRecord empty_record, AddAccessRecord 2,
          GrantRecord ''visitor_1.jpg'' ''2025-01-01T10:05:00'', NotifyClients door_event]"]
    by simp
qed

end
